theory Spec2Isabelle
  imports Main "HOL-Library.Word" "HOL-Library.Signed_Division" "HOL-Library.Multiset"
begin

unbundle bit_operations_syntax

section \<open>Embedding of \<^verbatim>\<open>src/common.c\<close>\<close>

subsection \<open>How a call can end\<close>

text \<open>
  A call returns, or stops the process in a failed \<^verbatim>\<open>assert\<close>, or runs into behaviour
  the C standard leaves undefined (the text says which), or is still blocked when the
  answers supplied by the environment run out.
\<close>

datatype 'a outcome =
    Returned 'a
  | Aborted
  | Undefined string
  | Blocked

subsection \<open>Errors\<close>

text \<open>
  Every fallible routine returns \<^verbatim>\<open>sr_error_info_t *\<close>, \<^verbatim>\<open>NULL\<close> meaning success; the model
  keeps the error code. \<open>SR_ERR_NOMEM\<close>, \<open>SR_ERR_SYS\<close> and \<open>SR_ERR_INTERNAL\<close> are what
  \<^verbatim>\<open>SR_ERRINFO_MEM\<close>/\<^verbatim>\<open>SR_CHECK_MEM_*\<close>, \<^verbatim>\<open>SR_ERRINFO_SYSERRNO\<close> and
  \<^verbatim>\<open>SR_ERRINFO_INT\<close>/\<^verbatim>\<open>SR_CHECK_INT_*\<close> record; \<open>SR_ERR_EXTERNAL n\<close> stands for an error
  handed back by a routine of another compilation unit (\<^verbatim>\<open>sr_shmsub_open_map\<close>,
  \<^verbatim>\<open>sr_shmmod_*_subscription\<close>). The two lock errors are described with the lock.
\<close>

datatype sr_error =
    SR_ERR_NOMEM
  | SR_ERR_SYS
  | SR_ERR_INTERNAL
  | SR_ERR_EXTERNAL nat
  | LockTimeout
  | LockFailed int

subsection \<open>Absolute timeouts: \<^verbatim>\<open>sr_time_get\<close>\<close>

text \<open>
  \<^verbatim>\<open>struct timespec\<close>: both fields are signed 64-bit integers on the platforms the
  library targets; they are kept as mathematical integers, and the division and
  remainder of C (truncating towards zero) are written \<open>sdiv\<close> and \<open>smod\<close>.
  The parameter \<^verbatim>\<open>add_ms\<close> is a \<^verbatim>\<open>uint32_t\<close> and is a 32-bit word: the statement
  \<^verbatim>\<open>add_ms += ts->tv_nsec / 1000000\<close> computes the sum in \<^verbatim>\<open>long\<close> and stores it back
  truncated to 32 bits.
\<close>

record timespec =
  tv_sec :: int
  tv_nsec :: int

text \<open>
  The first argument is what \<^verbatim>\<open>clock_gettime(CLOCK_REALTIME, ts)\<close> did: \<open>None\<close> when it
  returned -1 (the function then returns at once and \<^verbatim>\<open>*ts\<close> keeps its old content,
  the second argument), \<open>Some now\<close> when it stored the current time.
\<close>

definition sr_time_get :: "timespec option \<Rightarrow> timespec \<Rightarrow> 32 word \<Rightarrow> timespec" where
  "sr_time_get clock ts0 add_ms =
     (case clock of
        None \<Rightarrow> ts0
      | Some now \<Rightarrow>
          (let add_ms1 = (word_of_int (uint add_ms + tv_nsec now sdiv 1000000) :: 32 word);
               nsec1 = tv_nsec now smod 1000000;
               nsec2 = nsec1 + uint ((add_ms1 mod 1000) * 1000000);
               sec2 = tv_sec now + uint (add_ms1 div 1000)
           in \<lparr>tv_sec = sec2, tv_nsec = nsec2\<rparr>))"

text \<open>The instant a \<^verbatim>\<open>timespec\<close> denotes, in nanoseconds.\<close>

definition ts_nanos :: "timespec \<Rightarrow> int" where
  "ts_nanos ts = tv_sec ts * 1000000000 + tv_nsec ts"

subsection \<open>Hash of a path: \<^verbatim>\<open>sr_str_hash\<close>\<close>

text \<open>
  \<^verbatim>\<open>hash += str[i]\<close> adds a plain \<^verbatim>\<open>char\<close> to a \<^verbatim>\<open>uint32_t\<close>: the character is first
  promoted to \<^verbatim>\<open>int\<close>, and whether a byte of 128 or more becomes negative there depends
  on the signedness of plain \<^verbatim>\<open>char\<close>, which the ABI fixes (signed on x86 and x86-64,
  unsigned on ARM and PowerPC Linux). The flag \<open>char_signed\<close> carries that choice.
\<close>

definition char_to_int :: "bool \<Rightarrow> char \<Rightarrow> int" where
  "char_to_int char_signed c =
     (let v = int (of_char c) in if char_signed \<and> 128 \<le> v then v - 256 else v)"

text \<open>
  The loop \<^verbatim>\<open>for (hash = i = 0; i < len; ++i)\<close>, with \<^verbatim>\<open>hash\<close>, \<^verbatim>\<open>i\<close> and \<^verbatim>\<open>len\<close> all
  \<^verbatim>\<open>uint32_t\<close>.
\<close>

function sr_str_hash_loop ::
  "bool \<Rightarrow> string \<Rightarrow> 32 word \<Rightarrow> 32 word \<Rightarrow> 32 word \<Rightarrow> 32 word" where
  "sr_str_hash_loop sg str len hash i =
     (if i < len then
        (let h1 = hash + word_of_int (char_to_int sg (str ! unat i));
             h2 = h1 + push_bit 10 h1;
             h3 = h2 XOR drop_bit 6 h2
         in sr_str_hash_loop sg str len h3 (i + 1))
      else hash)"
  by pat_completeness auto
termination
proof (relation "measure (\<lambda>(sg, str, len, hash, i). unat len - unat i)")
  show "wf (measure (\<lambda>(sg, str, len, hash, i). unat len - unat i))" by simp
next
  fix sg :: bool and str :: string and len hash i h1 h2 h3 :: "32 word"
  assume "i < len"
  then have lt: "unat i < unat len"
    by (simp add: word_less_nat_alt)
  have "unat len < 2 ^ 32"
    using unsigned_less [of len] by simp
  with lt have "(unat i + 1) mod 2 ^ 32 = unat i + 1"
    by simp
  then have "unat (i + 1) = Suc (unat i)"
    by (simp add: unat_word_ariths)
  with lt show "((sg, str, len, h3, i + 1), (sg, str, len, hash, i))
      \<in> measure (\<lambda>(sg, str, len, hash, i). unat len - unat i)"
    by simp
qed

declare sr_str_hash_loop.simps [simp del]

text \<open>\<^verbatim>\<open>len = strlen(str)\<close> is stored in a \<^verbatim>\<open>uint32_t\<close>, hence the conversion of the length.\<close>

definition sr_str_hash :: "bool \<Rightarrow> string \<Rightarrow> 32 word" where
  "sr_str_hash sg str =
     (let len = (of_nat (length str) :: 32 word);
          hash = sr_str_hash_loop sg str len 0 0;
          h1 = hash + push_bit 3 hash;
          h2 = h1 XOR drop_bit 11 h1
      in h2 + push_bit 15 h2)"

text \<open>One round of the loop as a function of the character, for reasoning about the loop.\<close>

definition hash_step :: "bool \<Rightarrow> char \<Rightarrow> 32 word \<Rightarrow> 32 word" where
  "hash_step sg c hash =
     (let h1 = hash + word_of_int (char_to_int sg c); h2 = h1 + push_bit 10 h1
      in h2 XOR drop_bit 6 h2)"

text \<open>
  The documented algorithm, as the specification words it: Jenkins' one-at-a-time hash
  over a sequence of bytes (values 0 to 255), starting from 0 (no seed).
\<close>

definition oaat_round :: "32 word \<Rightarrow> 8 word \<Rightarrow> 32 word" where
  "oaat_round hash b =
     (let h1 = hash + ucast b; h2 = h1 + push_bit 10 h1 in h2 XOR drop_bit 6 h2)"

definition jenkins_one_at_a_time :: "8 word list \<Rightarrow> 32 word" where
  "jenkins_one_at_a_time key =
     (let hash = fold (\<lambda>b h. oaat_round h b) key 0;
          h1 = hash + push_bit 3 hash;
          h2 = h1 XOR drop_bit 11 h1
      in h2 + push_bit 15 h2)"

definition path_bytes :: "string \<Rightarrow> 8 word list" where
  "path_bytes str = map (\<lambda>c. of_nat (of_char c)) str"

subsection \<open>Names of shared segments: \<^verbatim>\<open>sr_path_sub_shm\<close>\<close>

text \<open>
  The conversion \<^verbatim>\<open>%08x\<close> of \<^verbatim>\<open>printf\<close> applied to a \<^verbatim>\<open>uint32_t\<close>: the hexadecimal digits
  of the value, lowercase, most significant first, without leading zeros (one digit for
  0), then padded on the left with \<^verbatim>\<open>0\<close> up to width 8.
\<close>

definition hex_digit :: "nat \<Rightarrow> char" where
  "hex_digit d = ''0123456789abcdef'' ! d"

fun hex_digits :: "nat \<Rightarrow> string" where
  "hex_digits n =
     (if n < 16 then [hex_digit n] else hex_digits (n div 16) @ [hex_digit (n mod 16)])"

declare hex_digits.simps [simp del]

definition printf_08x :: "32 word \<Rightarrow> string" where
  "printf_08x v = (let ds = hex_digits (unat v) in replicate (8 - length ds) CHR ''0'' @ ds)"

text \<open>Reading a hexadecimal numeral back, to say which number a printed string denotes.\<close>

definition hex_digit_val :: "char \<Rightarrow> nat" where
  "hex_digit_val c = length (takeWhile (\<lambda>d. d \<noteq> c) ''0123456789abcdef'')"

definition hex_val :: "string \<Rightarrow> nat" where
  "hex_val s = foldl (\<lambda>a c. 16 * a + hex_digit_val c) 0 s"

text \<open>
  \<^verbatim>\<open>sr_path_sub_shm(mod_name, suffix1, suffix2, abs_path, &path)\<close>. \<^verbatim>\<open>SR_SHM_DIR\<close> is a
  build-time constant and is a parameter here; \<open>asprintf_ok\<close> says whether \<^verbatim>\<open>asprintf\<close>
  could allocate the result. \<^verbatim>\<open>suffix2\<close> is an \<^verbatim>\<open>int64_t\<close>, compared signed with -1 and
  cast to \<^verbatim>\<open>uint32_t\<close> for printing.
\<close>

definition sr_path_sub_shm ::
  "string \<Rightarrow> bool \<Rightarrow> string \<Rightarrow> string \<Rightarrow> 64 word \<Rightarrow> bool \<Rightarrow> sr_error + string" where
  "sr_path_sub_shm SR_SHM_DIR asprintf_ok mod_name suffix1 suffix2 abs_path =
     (let root = (if abs_path then SR_SHM_DIR else '''');
          path = (if - 1 <s suffix2
                  then root @ ''/sr_'' @ mod_name @ ''.'' @ suffix1 @ ''.''
                       @ printf_08x (ucast suffix2)
                  else root @ ''/sr_'' @ mod_name @ ''.'' @ suffix1)
      in if asprintf_ok then Inr path else Inl SR_ERR_NOMEM)"

subsection \<open>Shared segments: \<^verbatim>\<open>sr_shm_remap\<close> and \<^verbatim>\<open>sr_shm_clear\<close>\<close>

text \<open>
  \<^verbatim>\<open>sr_shm_t\<close> as the code uses it: a file descriptor (-1 when closed), the size of the
  mapping and its address (\<^verbatim>\<open>NULL\<close> is \<open>None\<close>).
\<close>

record sr_shm_t =
  shm_fd :: int
  shm_size :: nat
  shm_addr :: "nat option"

text \<open>
  The system calls a routine issues are recorded in order, with their arguments; the two
  protection bits and the sharing flag of \<^verbatim>\<open>mmap\<close> are spelled out.
\<close>

datatype mmap_prot = PROT_READ | PROT_WRITE

datatype mmap_flag = MAP_SHARED | MAP_PRIVATE

datatype syscall =
    Fstat int
  | Munmap nat nat
  | Ftruncate int nat
  | Mmap nat "mmap_prot list" mmap_flag int nat
  | Close int
  | Unlink string

text \<open>
  What the operating system answers during one call of \<^verbatim>\<open>sr_shm_remap\<close>: the size
  \<^verbatim>\<open>fstat\<close> reports (\<open>None\<close> when it returns -1), whether \<^verbatim>\<open>ftruncate\<close> succeeds, and the
  address \<^verbatim>\<open>mmap\<close> returns (\<open>None\<close> for \<^verbatim>\<open>MAP_FAILED\<close>).
\<close>

record remap_env =
  fstat_size :: "nat option"
  ftruncate_ok :: bool
  mmap_addr :: "nat option"

definition sr_file_get_size :: "nat option \<Rightarrow> sr_error + nat" where
  "sr_file_get_size st = (case st of None \<Rightarrow> Inl SR_ERR_SYS | Some sz \<Rightarrow> Inr sz)"

text \<open>
  \<^verbatim>\<open>sr_shm_remap(shm, new_shm_size)\<close> returns the error (if any), the segment and the system
  calls made. \<^verbatim>\<open>shm_file_size\<close> is read only where \<^verbatim>\<open>new_shm_size\<close> is 0, which is where it
  has been set.
\<close>

definition sr_shm_remap ::
  "remap_env \<Rightarrow> sr_shm_t \<Rightarrow> nat \<Rightarrow> sr_error option \<times> sr_shm_t \<times> syscall list" where
  "sr_shm_remap env shm new_shm_size =
     (case (if new_shm_size = 0 then sr_file_get_size (fstat_size env) else Inr 0) of
        Inl e \<Rightarrow> (Some e, shm, [Fstat (shm_fd shm)])
      | Inr shm_file_size \<Rightarrow>
          (let tr0 = (if new_shm_size = 0 then [Fstat (shm_fd shm)] else []) in
           if (new_shm_size = 0 \<and> shm_file_size = shm_size shm)
              \<or> (new_shm_size \<noteq> 0 \<and> new_shm_size = shm_size shm)
           then (None, shm, tr0)
           else
             (let tr1 = tr0 @ (case shm_addr shm of None \<Rightarrow> [] | Some a \<Rightarrow> [Munmap a (shm_size shm)]) in
              if new_shm_size \<noteq> 0 \<and> \<not> ftruncate_ok env
              then (Some SR_ERR_SYS, shm\<lparr>shm_addr := None\<rparr>,
                    tr1 @ [Ftruncate (shm_fd shm) new_shm_size])
              else
                (let tr2 = tr1 @ (if new_shm_size \<noteq> 0
                                  then [Ftruncate (shm_fd shm) new_shm_size] else []);
                     shm1 = shm\<lparr>shm_size := (if new_shm_size \<noteq> 0 then new_shm_size
                                            else shm_file_size)\<rparr>;
                     tr3 = tr2 @ [Mmap (shm_size shm1) [PROT_READ, PROT_WRITE] MAP_SHARED (shm_fd shm1) 0]
                 in case mmap_addr env of
                      None \<Rightarrow> (Some SR_ERR_NOMEM, shm1\<lparr>shm_addr := None\<rparr>, tr3)
                    | Some a \<Rightarrow> (None, shm1\<lparr>shm_addr := Some a\<rparr>, tr3)))))"

text \<open>\<^verbatim>\<open>sr_shm_clear\<close>: unmap if mapped, close if open, size 0.\<close>

definition sr_shm_clear :: "sr_shm_t \<Rightarrow> sr_shm_t \<times> syscall list" where
  "sr_shm_clear shm =
     (let tr1 = (case shm_addr shm of None \<Rightarrow> [] | Some a \<Rightarrow> [Munmap a (shm_size shm)]);
          tr2 = (if - 1 < shm_fd shm then [Close (shm_fd shm)] else [])
      in (\<lparr>shm_fd = (if - 1 < shm_fd shm then - 1 else shm_fd shm), shm_size = 0, shm_addr = None\<rparr>, tr1 @ tr2))"

subsection \<open>The read/write lock: \<^verbatim>\<open>sr_rwlock\<close>\<close>

text \<open>
  \<^verbatim>\<open>sr_rwlock_t\<close> seen from the calling thread: whether this thread holds the mutex, and
  the reader counter. The condition variable has no state of its own here: what waiting
  on it yields is an answer of the environment.
\<close>

record sr_rwlock_t =
  mutex_held :: bool
  readers :: nat

text \<open>The value of \<^verbatim>\<open>ETIMEDOUT\<close> on Linux.\<close>

definition ETIMEDOUT :: int where
  "ETIMEDOUT = 110"

text \<open>
  Modelled from the spec: the macros \<^verbatim>\<open>SR_ERRINFO_LOCK\<close> and \<^verbatim>\<open>SR_ERRINFO_COND\<close> of
  \<^verbatim>\<open>common.h\<close>, which is not among the sources. They turn the non-zero return value of
  a pthread call into the error returned; the specification says that a timed-out
  acquisition returns a \<open>LockTimeout\<close> error. Any other return value is kept in
  \<open>LockFailed\<close>.
\<close>

definition SR_ERRINFO_LOCK :: "int \<Rightarrow> sr_error" where
  "SR_ERRINFO_LOCK ret = (if ret = ETIMEDOUT then LockTimeout else LockFailed ret)"

definition SR_ERRINFO_COND :: "int \<Rightarrow> sr_error" where
  "SR_ERRINFO_COND ret = (if ret = ETIMEDOUT then LockTimeout else LockFailed ret)"

text \<open>
  The environment of one call: the return value of \<^verbatim>\<open>pthread_mutex_timedlock\<close>, and for
  each \<^verbatim>\<open>pthread_cond_timedwait\<close> in turn its return value together with the reader
  counter found when it returns (the wait gives the mutex up, other threads run, and the
  mutex is held again on return, also after a timeout).
\<close>

record rwlock_env =
  timedlock_ret :: int
  cond_waits :: "(int \<times> nat) list"

text \<open>
  The loop \<^verbatim>\<open>while (!ret && rwlock->readers) ret = pthread_cond_timedwait(...)\<close>. It
  yields the last return value and reader counter, or nothing when the environment has no
  further wake-up to offer while the loop still waits.
\<close>

fun write_wait :: "(int \<times> nat) list \<Rightarrow> int \<Rightarrow> nat \<Rightarrow> (int \<times> nat) option" where
  "write_wait ws ret rd =
     (if ret = 0 \<and> rd \<noteq> 0 then
        (case ws of [] \<Rightarrow> None | (r, rd') # ws' \<Rightarrow> write_wait ws' r rd')
      else Some (ret, rd))"

declare write_wait.simps [simp del]

text \<open>
  \<^verbatim>\<open>sr_rwlock(rwlock, timeout_ms, wr, func)\<close>. The absolute timeout computed by
  \<^verbatim>\<open>sr_time_get\<close> is only handed to the two pthread calls, whose answers are the
  environment's.
\<close>

definition sr_rwlock ::
  "rwlock_env \<Rightarrow> int \<Rightarrow> bool \<Rightarrow> sr_rwlock_t \<Rightarrow> (sr_error option \<times> sr_rwlock_t) outcome" where
  "sr_rwlock env timeout_ms wr rwlock =
     (if \<not> 0 < timeout_ms then Aborted
      else if timedlock_ret env \<noteq> 0
      then Returned (Some (SR_ERRINFO_LOCK (timedlock_ret env)), rwlock)
      else
        (let l1 = rwlock\<lparr>mutex_held := True\<rparr> in
         if wr then
           (case write_wait (cond_waits env) 0 (readers l1) of
              None \<Rightarrow> Blocked
            | Some (ret, rd) \<Rightarrow>
                if ret \<noteq> 0
                then Returned (Some (SR_ERRINFO_COND ret), l1\<lparr>readers := rd, mutex_held := False\<rparr>)
                else Returned (None, l1\<lparr>readers := rd\<rparr>))
         else Returned (None, l1\<lparr>readers := readers l1 + 1, mutex_held := False\<rparr>)))"

subsection \<open>Order of delivery in the multi-phase commit\<close>

text \<open>
  The code that publishes events to subscribers is in another compilation unit, which is
  not among the sources; what follows is written from the specification.
\<close>

record conf_subscriber =
  sub_name :: string
  sub_priority :: nat

text \<open>
  Modelled from the spec: the order in which the \<open>CHANGE\<close> phase invokes the subscribers
  of a config group, which is absent from the sources. The list given is the group's
  entry list in insertion order; the specification says that the lower numeric priority
  is invoked first and that ties are broken by insertion order.
\<close>

definition change_order :: "conf_subscriber list \<Rightarrow> conf_subscriber list" where
  "change_order subs = sort_key sub_priority subs"

text \<open>
  Modelled from the spec: delivery of one \<open>CHANGE\<close> phase, absent from the sources. The
  subscribers are invoked in order; a failing callback ends the phase. The result is the
  list of subscribers notified, in order (the failing one included, as in the
  specification's example), and whether all of them accepted.
\<close>

fun notify_change ::
  "(conf_subscriber \<Rightarrow> bool) \<Rightarrow> conf_subscriber list \<Rightarrow> conf_subscriber list \<times> bool" where
  "notify_change accepts [] = ([], True)"
| "notify_change accepts (s # ss) =
     (if accepts s
      then (let (notified, ok) = notify_change accepts ss in (s # notified, ok))
      else ([s], False))"

text \<open>
  Modelled from the spec: the \<open>CHANGE\<close> phase followed, on failure, by the \<open>ABORT\<close> phase,
  absent from the sources: \<open>ABORT\<close> is delivered to the subscribers already notified,
  in reverse order. The result is the list of \<open>CHANGE\<close> deliveries and the list of
  \<open>ABORT\<close> deliveries.
\<close>

definition commit_change ::
  "(conf_subscriber \<Rightarrow> bool) \<Rightarrow> conf_subscriber list
     \<Rightarrow> conf_subscriber list \<times> conf_subscriber list" where
  "commit_change accepts subs =
     (let (notified, ok) = notify_change accepts (change_order subs)
      in (notified, if ok then [] else rev notified))"

subsection \<open>The subscription registry: data\<close>

text \<open>
  A pointer to heap memory owned by the field that holds it: \<^verbatim>\<open>NULL\<close>, a live block with
  its content, or a block that has been freed while the pointer still holds its address.
  Reading or writing through \<open>Dangling\<close> is a use after free and ends the run as
  \<open>Undefined\<close>. Where the code keeps a second pointer to a block in a local variable
  (\<^verbatim>\<open>mem[i]\<close>, \<^verbatim>\<open>conf_sub\<close>), the model follows the block through the field that owns it and
  says so at the place.
\<close>

datatype 'a ptr = Null | Ptr 'a | Dangling

text \<open>The content behind an array pointer; nothing can be read behind the other two.\<close>

definition arr_of :: "'a list ptr \<Rightarrow> 'a list" where
  "arr_of p = (case p of Ptr a \<Rightarrow> a | Null \<Rightarrow> [] | Dangling \<Rightarrow> [])"

text \<open>
  \<^verbatim>\<open>realloc(p, n * sizeof *p)\<close> when it succeeds: the first \<open>n\<close> elements are kept and the
  block has exactly \<open>n\<close> elements, the new ones with indeterminate content (\<open>fill\<close>).
\<close>

definition realloc_arr :: "nat \<Rightarrow> 'a \<Rightarrow> 'a list \<Rightarrow> 'a list" where
  "realloc_arr n fill old = take n old @ replicate (n - length old) fill"

text \<open>\<^verbatim>\<open>free(p)\<close> seen from the field that owns the block; freeing \<^verbatim>\<open>NULL\<close> does nothing.\<close>

definition free_ptr :: "'a ptr \<Rightarrow> 'a ptr" where
  "free_ptr p = (case p of Null \<Rightarrow> Null | Ptr a \<Rightarrow> Dangling | Dangling \<Rightarrow> Dangling)"

datatype sr_datastore_t = SR_DS_STARTUP | SR_DS_RUNNING | SR_DS_OPERATIONAL

definition sr_ds2str :: "sr_datastore_t \<Rightarrow> string" where
  "sr_ds2str ds =
     (case ds of SR_DS_RUNNING \<Rightarrow> ''running'' | SR_DS_STARTUP \<Rightarrow> ''startup''
      | SR_DS_OPERATIONAL \<Rightarrow> ''operational'')"

datatype sr_sub_event_t =
    SR_SUB_EV_NONE | SR_SUB_EV_UPDATE | SR_SUB_EV_CHANGE | SR_SUB_EV_DONE | SR_SUB_EV_ABORT
  | SR_SUB_EV_DP | SR_SUB_EV_RPC | SR_SUB_EV_NOTIF

text \<open>
  The structures are declared in \<^verbatim>\<open>common.h\<close>, which is not among the sources; their
  fields are the ones \<^verbatim>\<open>common.c\<close> reads and writes. Callbacks and \<^verbatim>\<open>private_data\<close> are
  only stored and compared, so each is a number (0 for \<^verbatim>\<open>NULL\<close>). The field names carry
  a prefix, since one theory cannot have two records with a field \<open>xpath\<close>:
  \<open>cs_\<close> an entry of a config group, \<open>c_\<close> a config group, \<open>ds_\<close> and \<open>d_\<close> the same for
  data-provide, \<open>r_\<close> an RPC subscription, \<open>ns_\<close> and \<open>n_\<close> for notifications.
\<close>

record modsub_confsub_s =
  cs_xpath :: "string ptr"
  cs_priority :: "32 word"
  cs_opts :: "32 word"
  cs_cb :: nat
  cs_private_data :: nat
  cs_event_id :: "32 word"
  cs_event :: sr_sub_event_t

record modsub_conf_s =
  c_module_name :: "string ptr"
  c_ds :: sr_datastore_t
  c_subs :: "modsub_confsub_s list ptr"
  c_sub_count :: "32 word"
  c_sub_shm :: sr_shm_t

record modsub_dpsub_s =
  ds_xpath :: "string ptr"
  ds_cb :: nat
  ds_private_data :: nat
  ds_sub_shm :: sr_shm_t

record modsub_dp_s =
  d_module_name :: "string ptr"
  d_subs :: "modsub_dpsub_s list ptr"
  d_sub_count :: "32 word"

record modsub_rpc_s =
  r_xpath :: "string ptr"
  r_cb :: nat
  r_tree_cb :: nat
  r_private_data :: nat
  r_sub_shm :: sr_shm_t

record modsub_notifsub_s =
  ns_xpath :: "string ptr"
  ns_start_time :: int
  ns_replayed :: int
  ns_stop_time :: int
  ns_cb :: nat
  ns_tree_cb :: nat
  ns_private_data :: nat

record modsub_notif_s =
  n_module_name :: "string ptr"
  n_subs :: "modsub_notifsub_s list ptr"
  n_sub_count :: "32 word"
  n_sub_shm :: sr_shm_t

text \<open>
  \<^verbatim>\<open>sr_subscription_ctx_t\<close>. \<open>subs_lock\<close> says whether the calling thread holds the
  mutex \<^verbatim>\<open>subs->subs_lock\<close>.
\<close>

record sr_subscription_ctx_t =
  subs_lock :: bool
  evpipe_num :: "32 word"
  conf_subs :: "modsub_conf_s list ptr"
  conf_sub_count :: "32 word"
  dp_subs :: "modsub_dp_s list ptr"
  dp_sub_count :: "32 word"
  rpc_subs :: "modsub_rpc_s list ptr"
  rpc_sub_count :: "32 word"
  notif_subs :: "modsub_notif_s list ptr"
  notif_sub_count :: "32 word"

text \<open>Structures after \<^verbatim>\<open>memset(p, 0, sizeof *p)\<close>; they also stand for indeterminate content.\<close>

definition zero_shm :: sr_shm_t where
  "zero_shm = \<lparr>shm_fd = 0, shm_size = 0, shm_addr = None\<rparr>"

definition zero_confsub :: modsub_confsub_s where
  "zero_confsub = \<lparr>cs_xpath = Null, cs_priority = 0, cs_opts = 0, cs_cb = 0,
     cs_private_data = 0, cs_event_id = 0, cs_event = SR_SUB_EV_NONE\<rparr>"

definition zero_conf :: modsub_conf_s where
  "zero_conf = \<lparr>c_module_name = Null, c_ds = SR_DS_STARTUP, c_subs = Null, c_sub_count = 0,
     c_sub_shm = zero_shm\<rparr>"

definition zero_rpc :: modsub_rpc_s where
  "zero_rpc = \<lparr>r_xpath = Null, r_cb = 0, r_tree_cb = 0, r_private_data = 0,
     r_sub_shm = zero_shm\<rparr>"

text \<open>A handle with no subscription, as \<^verbatim>\<open>calloc\<close> leaves it.\<close>

definition empty_subs :: sr_subscription_ctx_t where
  "empty_subs = \<lparr>subs_lock = False, evpipe_num = 0,
     conf_subs = Null, conf_sub_count = 0, dp_subs = Null, dp_sub_count = 0,
     rpc_subs = Null, rpc_sub_count = 0, notif_subs = Null, notif_sub_count = 0\<rparr>"

text \<open>
  \<^verbatim>\<open>sr_mlock\<close> on the handle's mutex with a finite timeout: the argument is what
  \<^verbatim>\<open>pthread_mutex_timedlock\<close> returned. \<^verbatim>\<open>sr_munlock\<close> releases the mutex.
\<close>

definition sr_mlock :: "int \<Rightarrow> sr_subscription_ctx_t \<Rightarrow> sr_error option \<times> sr_subscription_ctx_t" where
  "sr_mlock ret subs =
     (if ret \<noteq> 0 then (Some (SR_ERRINFO_LOCK ret), subs) else (None, subs\<lparr>subs_lock := True\<rparr>))"

definition sr_munlock :: "sr_subscription_ctx_t \<Rightarrow> sr_subscription_ctx_t" where
  "sr_munlock subs = subs\<lparr>subs_lock := False\<rparr>"

subsection \<open>Adding a config subscription: \<^verbatim>\<open>sr_sub_conf_add\<close>\<close>

text \<open>
  What the environment answers during one add: the return value of
  \<^verbatim>\<open>pthread_mutex_timedlock\<close>, whether each allocation succeeds (\<^verbatim>\<open>mem[0]\<close> the group
  array, \<^verbatim>\<open>mem[1]\<close> the module name, \<^verbatim>\<open>mem[2]\<close> the entry list, \<^verbatim>\<open>mem[3]\<close> the path), and
  what \<^verbatim>\<open>sr_shmsub_open_map\<close>, a routine of another compilation unit, returns and leaves
  in the segment structure it was given.
\<close>

record add_env =
  lock_ret :: int
  realloc_groups_ok :: bool
  strdup_name_ok :: bool
  open_map :: "sr_error option \<times> sr_shm_t"
  realloc_subs_ok :: bool
  strdup_xpath_ok :: bool

text \<open>
  The search loop \<^verbatim>\<open>for (i = 0; i < subs->conf_sub_count; ++i)\<close>, which leaves at the first
  group of that module and datastore; it yields the final \<^verbatim>\<open>i\<close>.
\<close>

function conf_find ::
  "string \<Rightarrow> sr_datastore_t \<Rightarrow> modsub_conf_s list \<Rightarrow> nat \<Rightarrow> nat \<Rightarrow> nat outcome" where
  "conf_find mod_name ds arr cnt i =
     (if i < cnt then
        (if i < length arr then
           (case c_module_name (arr ! i) of
              Ptr name \<Rightarrow>
                if mod_name = name \<and> c_ds (arr ! i) = ds then Returned i
                else conf_find mod_name ds arr cnt (Suc i)
            | Null \<Rightarrow> Undefined ''strcmp with a null module name''
            | Dangling \<Rightarrow> Undefined ''strcmp reads a freed module name'')
         else Undefined ''group array read out of bounds'')
      else Returned i)"
  by pat_completeness auto
termination
  by (relation "measure (\<lambda>(mod_name, ds, arr, cnt, i). cnt - i)") auto

declare conf_find.simps [simp del]

text \<open>
  The code from the label \<^verbatim>\<open>error_unlock\<close>. \<^verbatim>\<open>mem[2]\<close> and \<^verbatim>\<open>mem[3]\<close> are always \<^verbatim>\<open>NULL\<close>
  there, since no jump to the label follows their assignment; \<open>mem0\<close> and \<open>mem1\<close> say
  whether \<^verbatim>\<open>mem[0]\<close> and \<^verbatim>\<open>mem[1]\<close> are set. When \<^verbatim>\<open>mem[0]\<close> is set it is the block
  \<^verbatim>\<open>subs->conf_subs\<close> already points to, so \<^verbatim>\<open>free(mem[0])\<close> frees the group array; the
  block of \<^verbatim>\<open>mem[1]\<close> is reachable only through that array. \<open>conf_sub\<close> is the index of
  the group \<^verbatim>\<open>conf_sub\<close> points to, \<open>None\<close> for \<^verbatim>\<open>NULL\<close>.
\<close>

definition conf_add_error_unlock ::
  "sr_error \<Rightarrow> bool \<Rightarrow> bool \<Rightarrow> nat option \<Rightarrow> sr_subscription_ctx_t
     \<Rightarrow> (sr_error option \<times> sr_subscription_ctx_t) outcome" where
  "conf_add_error_unlock err mem0 mem1 conf_sub subs =
     (let s1 = sr_munlock subs;
          s2 = (if mem0 then s1\<lparr>conf_subs := free_ptr (conf_subs s1)\<rparr> else s1);
          fin = (\<lambda>s. Returned (Some err,
                   if mem1 then s\<lparr>conf_sub_count := conf_sub_count s - 1\<rparr> else s))
      in case conf_sub of
           None \<Rightarrow> fin s2
         | Some i \<Rightarrow>
             (case conf_subs s2 of
                Ptr arr \<Rightarrow>
                  if i < length arr
                  then fin (s2\<lparr>conf_subs := Ptr (arr[i := (arr ! i)
                              \<lparr>c_sub_shm := fst (sr_shm_clear (c_sub_shm (arr ! i)))\<rparr>])\<rparr>)
                  else Undefined ''group array written out of bounds''
              | Null \<Rightarrow> Undefined ''sr_shm_clear through a null group array''
              | Dangling \<Rightarrow> Undefined ''use after free: sr_shm_clear on a group of the freed array''))"

text \<open>
  The second half of the function, from \<^verbatim>\<open>mem[2] = realloc(conf_sub->subs, ...)\<close>, for the
  group at index \<open>i\<close>. The macro \<^verbatim>\<open>SR_CHECK_MEM_GOTO\<close> records the allocation error and
  jumps to the label; \<^verbatim>\<open>SR_CHECK_MEM_RET\<close>, used for \<^verbatim>\<open>mem[3]\<close>, records it and returns
  at once.
\<close>

definition conf_add_entry ::
  "add_env \<Rightarrow> string option \<Rightarrow> nat \<Rightarrow> nat \<Rightarrow> 32 word \<Rightarrow> 32 word \<Rightarrow> bool \<Rightarrow> bool \<Rightarrow> nat
     \<Rightarrow> sr_subscription_ctx_t \<Rightarrow> (sr_error option \<times> sr_subscription_ctx_t) outcome" where
  "conf_add_entry env xpath conf_cb private_data priority sub_opts mem0 mem1 i subs =
     (case conf_subs subs of
        Null \<Rightarrow> Undefined ''group read through a null group array''
      | Dangling \<Rightarrow> Undefined ''use after free: group read in the freed array''
      | Ptr arr \<Rightarrow>
          if \<not> i < length arr then Undefined ''group array read out of bounds''
          else if \<not> realloc_subs_ok env
          then conf_add_error_unlock SR_ERR_NOMEM mem0 mem1 (Some i) subs
          else if c_subs (arr ! i) = Dangling then Undefined ''realloc of a freed entry list''
          else
            (let g = arr ! i;
                 j = unat (c_sub_count g);
                 ents = realloc_arr (unat (c_sub_count g + 1)) zero_confsub (arr_of (c_subs g));
                 g1 = g\<lparr>c_subs := Ptr ents\<rparr>
             in if xpath \<noteq> None \<and> \<not> strdup_xpath_ok env
                then Returned (Some SR_ERR_NOMEM, subs\<lparr>conf_subs := Ptr (arr[i := g1])\<rparr>)
                else if \<not> j < length ents then Undefined ''entry list written out of bounds''
                else
                  (let e = \<lparr>cs_xpath = (case xpath of None \<Rightarrow> Null | Some p \<Rightarrow> Ptr p),
                            cs_priority = priority, cs_opts = sub_opts, cs_cb = conf_cb,
                            cs_private_data = private_data, cs_event_id = 0,
                            cs_event = SR_SUB_EV_NONE\<rparr>;
                       g2 = g1\<lparr>c_subs := Ptr (ents[j := e]), c_sub_count := c_sub_count g + 1\<rparr>
                   in Returned (None, sr_munlock (subs\<lparr>conf_subs := Ptr (arr[i := g2])\<rparr>)))))"

text \<open>
  \<^verbatim>\<open>sr_sub_conf_add(mod_name, xpath, ds, conf_cb, private_data, priority, sub_opts, subs)\<close>;
  \<^verbatim>\<open>xpath\<close> may be \<^verbatim>\<open>NULL\<close> (\<open>None\<close>).
\<close>

definition sr_sub_conf_add ::
  "add_env \<Rightarrow> string \<Rightarrow> string option \<Rightarrow> sr_datastore_t \<Rightarrow> nat \<Rightarrow> nat \<Rightarrow> 32 word \<Rightarrow> 32 word
     \<Rightarrow> sr_subscription_ctx_t \<Rightarrow> (sr_error option \<times> sr_subscription_ctx_t) outcome" where
  "sr_sub_conf_add env mod_name xpath ds conf_cb private_data priority sub_opts subs =
     (case sr_mlock (lock_ret env) subs of
        (Some err, s) \<Rightarrow> Returned (Some err, s)
      | (None, s0) \<Rightarrow>
          (case conf_find mod_name ds (arr_of (conf_subs s0)) (unat (conf_sub_count s0)) 0 of
             Undefined m \<Rightarrow> Undefined m
           | Aborted \<Rightarrow> Aborted
           | Blocked \<Rightarrow> Blocked
           | Returned i \<Rightarrow>
               if i = unat (conf_sub_count s0) then
                 (if \<not> realloc_groups_ok env
                  then conf_add_error_unlock SR_ERR_NOMEM False False None s0
                  else if conf_subs s0 = Dangling then Undefined ''realloc of a freed group array''
                  else
                    (let arr1 = realloc_arr (unat (conf_sub_count s0 + 1)) zero_conf
                                  (arr_of (conf_subs s0));
                         g0 = zero_conf\<lparr>c_sub_shm := zero_shm\<lparr>shm_fd := - 1\<rparr>\<rparr>;
                         s1 = s0\<lparr>conf_subs := Ptr (arr1[i := g0])\<rparr>
                     in if \<not> i < length arr1 then Undefined ''group array written out of bounds''
                        else if \<not> strdup_name_ok env
                        then conf_add_error_unlock SR_ERR_NOMEM True False (Some i) s1
                        else
                          (let g1 = g0\<lparr>c_module_name := Ptr mod_name, c_ds := ds\<rparr>;
                               g2 = g1\<lparr>c_sub_shm := snd (open_map env)\<rparr>;
                               s2 = s0\<lparr>conf_subs := Ptr (arr1[i := g2])\<rparr>
                           in case fst (open_map env) of
                                Some err \<Rightarrow> conf_add_error_unlock err True True (Some i) s2
                              | None \<Rightarrow>
                                  conf_add_entry env xpath conf_cb private_data priority sub_opts
                                    True True i
                                    (s2\<lparr>conf_sub_count := conf_sub_count s0 + 1\<rparr>))))
               else conf_add_entry env xpath conf_cb private_data priority sub_opts
                      False False i s0))"

subsection \<open>Deleting a config subscription: \<^verbatim>\<open>sr_sub_conf_del\<close>\<close>

text \<open>
  The inner loop over the entries of one group, up to the entry that matches: it yields
  the index of that entry, or \<open>None\<close> when the loop runs to its end. The first test is
  \<^verbatim>\<open>(!xpath && e.xpath) || (xpath && !e.xpath) || strcmp(e.xpath, xpath)\<close>: \<^verbatim>\<open>strcmp\<close> is
  reached when both pointers are \<^verbatim>\<open>NULL\<close> or both are not, and calling it with \<^verbatim>\<open>NULL\<close> is
  undefined. A freed path is still a non-null pointer.
\<close>

function conf_del_match ::
  "string option \<Rightarrow> nat \<Rightarrow> nat \<Rightarrow> 32 word \<Rightarrow> 32 word \<Rightarrow> modsub_confsub_s list \<Rightarrow> nat \<Rightarrow> nat
     \<Rightarrow> nat option outcome" where
  "conf_del_match xpath conf_cb private_data priority sub_opts ents cnt j =
     (if j < cnt then
        (if j < length ents then
           (let e = ents ! j in
            if (xpath = None \<and> cs_xpath e \<noteq> Null) \<or> (xpath \<noteq> None \<and> cs_xpath e = Null)
            then conf_del_match xpath conf_cb private_data priority sub_opts ents cnt (Suc j)
            else
              (case (cs_xpath e, xpath) of
                 (Ptr p, Some q) \<Rightarrow>
                   if p \<noteq> q
                   then conf_del_match xpath conf_cb private_data priority sub_opts ents cnt (Suc j)
                   else if cs_priority e \<noteq> priority \<or> cs_opts e \<noteq> sub_opts
                           \<or> cs_cb e \<noteq> conf_cb \<or> cs_private_data e \<noteq> private_data
                   then conf_del_match xpath conf_cb private_data priority sub_opts ents cnt (Suc j)
                   else Returned (Some j)
               | (Dangling, _) \<Rightarrow> Undefined ''strcmp reads a freed path''
               | (_, _) \<Rightarrow> Undefined ''strcmp(NULL, NULL)''))
         else Undefined ''entry list read out of bounds'')
      else Returned None)"
  by pat_completeness auto
termination
  by (relation "measure (\<lambda>(xpath, conf_cb, private_data, priority, sub_opts, ents, cnt, j). cnt - j)")
     auto

declare conf_del_match.simps [simp del]

text \<open>
  What the code does once the entry \<open>j\<close> of the group \<open>i\<close> is found: the entry is
  replaced with the last one of its list, the group with the last group when its list
  becomes empty, and the group array is freed when no group is left.
\<close>

definition conf_del_remove ::
  "nat \<Rightarrow> nat \<Rightarrow> modsub_conf_s list \<Rightarrow> modsub_confsub_s list \<Rightarrow> sr_subscription_ctx_t
     \<Rightarrow> sr_subscription_ctx_t outcome" where
  "conf_del_remove i j arr ents subs =
     (let g = arr ! i;
          last_j = unat (c_sub_count g - 1);
          ents1 = ents[j := (ents ! j)\<lparr>cs_xpath := free_ptr (cs_xpath (ents ! j))\<rparr>]
      in if j < last_j \<and> \<not> last_j < length ents
         then Undefined ''entry list read out of bounds''
         else
           (let ents2 = (if j < last_j then ents1[j := ents1 ! last_j] else ents1);
                g1 = g\<lparr>c_subs := Ptr ents2, c_sub_count := c_sub_count g - 1\<rparr>
            in if c_sub_count g1 \<noteq> 0
               then Returned (sr_munlock (subs\<lparr>conf_subs := Ptr (arr[i := g1])\<rparr>))
               else
                 (let g2 = g1\<lparr>c_module_name := free_ptr (c_module_name g1),
                              c_subs := Dangling,
                              c_sub_shm := fst (sr_shm_clear (c_sub_shm g1))\<rparr>;
                      arr1 = arr[i := g2];
                      last_i = unat (conf_sub_count subs - 1)
                  in if i < last_i \<and> \<not> last_i < length arr1
                     then Undefined ''group array read out of bounds''
                     else
                       (let arr2 = (if i < last_i then arr1[i := arr1 ! last_i] else arr1);
                            cnt1 = conf_sub_count subs - 1
                        in Returned (sr_munlock
                             (if cnt1 = 0
                              then subs\<lparr>conf_subs := Null, conf_sub_count := cnt1\<rparr>
                              else subs\<lparr>conf_subs := Ptr arr2, conf_sub_count := cnt1\<rparr>))))))"

text \<open>
  The outer loop over the groups, from index \<open>i\<close>. The datastore is compared first and
  \<^verbatim>\<open>strcmp\<close> on the module name is reached only when it is equal. Running off the end of
  the loop reaches \<^verbatim>\<open>assert(0)\<close>.
\<close>

function conf_del_from ::
  "string \<Rightarrow> string option \<Rightarrow> sr_datastore_t \<Rightarrow> nat \<Rightarrow> nat \<Rightarrow> 32 word \<Rightarrow> 32 word
     \<Rightarrow> sr_subscription_ctx_t \<Rightarrow> nat \<Rightarrow> sr_subscription_ctx_t outcome" where
  "conf_del_from mod_name xpath ds conf_cb private_data priority sub_opts subs i =
     (if i < unat (conf_sub_count subs) then
        (case conf_subs subs of
           Null \<Rightarrow> Undefined ''group read through a null group array''
         | Dangling \<Rightarrow> Undefined ''use after free: group read in the freed array''
         | Ptr arr \<Rightarrow>
             if \<not> i < length arr then Undefined ''group array read out of bounds''
             else if c_ds (arr ! i) \<noteq> ds
             then conf_del_from mod_name xpath ds conf_cb private_data priority sub_opts subs (Suc i)
             else
               (case c_module_name (arr ! i) of
                  Null \<Rightarrow> Undefined ''strcmp with a null module name''
                | Dangling \<Rightarrow> Undefined ''strcmp reads a freed module name''
                | Ptr name \<Rightarrow>
                    if mod_name \<noteq> name
                    then conf_del_from mod_name xpath ds conf_cb private_data priority sub_opts
                           subs (Suc i)
                    else if unat (c_sub_count (arr ! i)) = 0
                    then conf_del_from mod_name xpath ds conf_cb private_data priority sub_opts
                           subs (Suc i)
                    else
                      (case c_subs (arr ! i) of
                         Null \<Rightarrow> Undefined ''entry read through a null entry list''
                       | Dangling \<Rightarrow> Undefined ''use after free: entry read in a freed list''
                       | Ptr ents \<Rightarrow>
                           (case conf_del_match xpath conf_cb private_data priority sub_opts ents
                                   (unat (c_sub_count (arr ! i))) 0 of
                              Undefined m \<Rightarrow> Undefined m
                            | Aborted \<Rightarrow> Aborted
                            | Blocked \<Rightarrow> Blocked
                            | Returned None \<Rightarrow>
                                conf_del_from mod_name xpath ds conf_cb private_data priority
                                  sub_opts subs (Suc i)
                            | Returned (Some j) \<Rightarrow> conf_del_remove i j arr ents subs))))
      else Aborted)"
  by pat_completeness auto
termination
  by (relation "measure (\<lambda>(mod_name, xpath, ds, conf_cb, private_data, priority, sub_opts, subs, i).
        unat (conf_sub_count subs) - i)") auto

declare conf_del_from.simps [simp del]

text \<open>
  \<^verbatim>\<open>sr_sub_conf_del\<close>; the first argument is what \<^verbatim>\<open>pthread_mutex_timedlock\<close> returned.
  When the lock cannot be taken the function returns without doing anything.
\<close>

definition sr_sub_conf_del ::
  "int \<Rightarrow> string \<Rightarrow> string option \<Rightarrow> sr_datastore_t \<Rightarrow> nat \<Rightarrow> nat \<Rightarrow> 32 word \<Rightarrow> 32 word
     \<Rightarrow> sr_subscription_ctx_t \<Rightarrow> sr_subscription_ctx_t outcome" where
  "sr_sub_conf_del ret mod_name xpath ds conf_cb private_data priority sub_opts subs =
     (case sr_mlock ret subs of
        (Some err, s) \<Rightarrow> Returned s
      | (None, s0) \<Rightarrow>
          conf_del_from mod_name xpath ds conf_cb private_data priority sub_opts s0 0)"

subsection \<open>RPC subscriptions: \<^verbatim>\<open>sr_sub_rpc_add\<close> and \<^verbatim>\<open>sr_sub_rpc_del\<close>\<close>

text \<open>
  \<^verbatim>\<open>sr_sub_rpc_add\<close>. Of the environment it uses the lock's return value, the
  reallocation of the array (\<open>realloc_groups_ok\<close>), the copy of the path
  (\<open>strdup_xpath_ok\<close>) and \<open>open_map\<close>. The leading \<^verbatim>\<open>assert\<close> wants exactly one of the
  two callbacks to be set.
\<close>

definition sr_sub_rpc_add ::
  "add_env \<Rightarrow> string \<Rightarrow> string \<Rightarrow> nat \<Rightarrow> nat \<Rightarrow> nat \<Rightarrow> sr_subscription_ctx_t
     \<Rightarrow> (sr_error option \<times> sr_subscription_ctx_t) outcome" where
  "sr_sub_rpc_add env mod_name xpath rpc_cb rpc_tree_cb private_data subs =
     (if \<not> ((0 < rpc_cb \<or> 0 < rpc_tree_cb) \<and> (rpc_cb = 0 \<or> rpc_tree_cb = 0)) then Aborted
      else
        (case sr_mlock (lock_ret env) subs of
           (Some err, s) \<Rightarrow> Returned (Some err, s)
         | (None, s0) \<Rightarrow>
             if \<not> realloc_groups_ok env then Returned (Some SR_ERR_NOMEM, sr_munlock s0)
             else if rpc_subs s0 = Dangling then Undefined ''realloc of a freed array''
             else
               (let k = unat (rpc_sub_count s0);
                    arr1 = realloc_arr (unat (rpc_sub_count s0 + 1)) zero_rpc
                             (arr_of (rpc_subs s0));
                    r0 = zero_rpc\<lparr>r_sub_shm := zero_shm\<lparr>shm_fd := - 1\<rparr>\<rparr>
                in if \<not> k < length arr1 then Undefined ''array written out of bounds''
                   else if \<not> strdup_xpath_ok env
                   then Returned (Some SR_ERR_NOMEM,
                          sr_munlock (s0\<lparr>rpc_subs := Ptr (arr1[k := r0])\<rparr>))
                   else
                     (let r1 = r0\<lparr>r_xpath := Ptr xpath, r_cb := rpc_cb, r_tree_cb := rpc_tree_cb,
                                  r_private_data := private_data,
                                  r_sub_shm := snd (open_map env)\<rparr>
                      in case fst (open_map env) of
                           Some err \<Rightarrow>
                             Returned (Some err, sr_munlock
                               (s0\<lparr>rpc_subs := Ptr (arr1[k := r1\<lparr>r_xpath := Dangling\<rparr>])\<rparr>))
                         | None \<Rightarrow>
                             Returned (None, sr_munlock
                               (s0\<lparr>rpc_subs := Ptr (arr1[k := r1]),
                                   rpc_sub_count := rpc_sub_count s0 + 1\<rparr>))))))"

text \<open>
  The loop of \<^verbatim>\<open>sr_sub_rpc_del\<close>, from index \<open>i\<close>. At the entry found, the path is freed
  and the segment cleared; then, when the entry is not the last one, the code runs
  \<^verbatim>\<open>memcpy(&rpc_sub, &subs->rpc_subs[subs->rpc_sub_count - 1], sizeof *rpc_sub)\<close>, whose
  destination is the local pointer variable \<^verbatim>\<open>rpc_sub\<close> itself, not the entry it points
  to: a whole entry is written over a variable of pointer size and what follows it on the
  stack, which is undefined, and the array is not written. Running off the end of the
  loop reaches \<^verbatim>\<open>assert(0)\<close>.
\<close>

function rpc_del_from :: "string \<Rightarrow> sr_subscription_ctx_t \<Rightarrow> nat \<Rightarrow> sr_subscription_ctx_t outcome" where
  "rpc_del_from xpath subs i =
     (if i < unat (rpc_sub_count subs) then
        (case rpc_subs subs of
           Null \<Rightarrow> Undefined ''entry read through a null array''
         | Dangling \<Rightarrow> Undefined ''use after free: entry read in the freed array''
         | Ptr arr \<Rightarrow>
             if \<not> i < length arr then Undefined ''array read out of bounds''
             else
               (case r_xpath (arr ! i) of
                  Null \<Rightarrow> Undefined ''strcmp with a null path''
                | Dangling \<Rightarrow> Undefined ''strcmp reads a freed path''
                | Ptr p \<Rightarrow>
                    if xpath \<noteq> p then rpc_del_from xpath subs (Suc i)
                    else
                      (let arr1 = arr[i := (arr ! i)\<lparr>r_xpath := Dangling,
                                     r_sub_shm := fst (sr_shm_clear (r_sub_shm (arr ! i)))\<rparr>]
                       in if i < unat (rpc_sub_count subs - 1)
                          then Undefined
                            ''memcpy of a whole entry into the pointer variable rpc_sub''
                          else
                            (let cnt1 = rpc_sub_count subs - 1
                             in Returned (sr_munlock
                                  (if cnt1 = 0
                                   then subs\<lparr>rpc_subs := Null, rpc_sub_count := cnt1\<rparr>
                                   else subs\<lparr>rpc_subs := Ptr arr1, rpc_sub_count := cnt1\<rparr>))))))
      else Aborted)"
  by pat_completeness auto
termination
  by (relation "measure (\<lambda>(xpath, subs, i). unat (rpc_sub_count subs) - i)") auto

declare rpc_del_from.simps [simp del]

definition sr_sub_rpc_del :: "int \<Rightarrow> string \<Rightarrow> sr_subscription_ctx_t \<Rightarrow> sr_subscription_ctx_t outcome" where
  "sr_sub_rpc_del ret xpath subs =
     (case sr_mlock ret subs of
        (Some err, s) \<Rightarrow> Returned s
      | (None, s0) \<Rightarrow> rpc_del_from xpath s0 0)"

subsection \<open>Tearing the registry down: \<^verbatim>\<open>sr_subs_del_all\<close>\<close>

text \<open>
  A \<^verbatim>\<open>for (i = i0; i < cnt; ++i)\<close> loop whose body may leave the function: the body either
  goes on with a new state, or returns an error (with the state reached), or hits
  undefined behaviour.
\<close>

datatype 's step = Next 's | Stop sr_error 's | Undef string

function for_loop :: "(nat \<Rightarrow> 's \<Rightarrow> 's step) \<Rightarrow> nat \<Rightarrow> nat \<Rightarrow> 's \<Rightarrow> 's step" where
  "for_loop body cnt i s =
     (if i < cnt then
        (case body i s of
           Next s' \<Rightarrow> for_loop body cnt (Suc i) s'
         | Stop err s' \<Rightarrow> Stop err s'
         | Undef m \<Rightarrow> Undef m)
      else Next s)"
  by pat_completeness auto
termination
  by (relation "measure (\<lambda>(body, cnt, i, s). cnt - i)") auto

declare for_loop.simps [simp del]

text \<open>
  \<^verbatim>\<open>sr_get_first_ns\<close>: the module name in front of the first colon of a path, \<open>None\<close> for
  \<^verbatim>\<open>NULL\<close>. The first argument says whether \<^verbatim>\<open>strndup\<close> can allocate the result.
  \<^verbatim>\<open>isalpha\<close> and \<^verbatim>\<open>isalnum\<close> are taken in the C locale.
\<close>

definition isalpha :: "char \<Rightarrow> bool" where
  "isalpha c = ((65 \<le> (of_char c :: nat) \<and> (of_char c :: nat) \<le> 90)
              \<or> (97 \<le> (of_char c :: nat) \<and> (of_char c :: nat) \<le> 122))"

definition isalnum :: "char \<Rightarrow> bool" where
  "isalnum c = (isalpha c \<or> (48 \<le> (of_char c :: nat) \<and> (of_char c :: nat) \<le> 57))"

definition sr_get_first_ns :: "bool \<Rightarrow> string \<Rightarrow> string option" where
  "sr_get_first_ns strndup_ok expr =
     (case expr of
        [] \<Rightarrow> None
      | c # rest \<Rightarrow>
          if c \<noteq> CHR ''/'' then None
          else
            (let e = (case rest of [] \<Rightarrow> rest | c1 # r2 \<Rightarrow> if c1 = CHR ''/'' then r2 else rest)
             in case e of
                  [] \<Rightarrow> None
                | c0 # cs \<Rightarrow>
                    if \<not> isalpha c0 \<and> c0 \<noteq> CHR ''_'' then None
                    else
                      (let n = length (takeWhile (\<lambda>x. isalnum x \<or> x = CHR ''_'' \<or> x = CHR ''-''
                                                     \<or> x = CHR ''.'') cs)
                       in if n < length cs \<and> cs ! n = CHR '':''
                          then (if strndup_ok then Some (take (Suc n) e) else None)
                          else None)))"

text \<open>
  What the teardown asks of the module directory in main shared memory (routines
  \<^verbatim>\<open>sr_shmmod_*_subscription\<close> of another compilation unit, called with the last argument
  0 to remove) and which files it unlinks, in order.
\<close>

datatype del_event =
    Unsub_conf string "string option" sr_datastore_t "32 word" "32 word" "32 word"
  | Unsub_dp string string "32 word"
  | Unsub_rpc string string "32 word"
  | Unsub_notif string "32 word"
  | Unlink_file string

text \<open>
  The environment of one teardown. Each answer is indexed by the position of the call
  (group \<open>i\<close>, entry \<open>j\<close>), which is visited once: the error a directory routine
  returns and, for the config and notification kinds, the value it stores in
  \<^verbatim>\<open>last_removed\<close>; whether \<^verbatim>\<open>asprintf\<close> in \<^verbatim>\<open>sr_path_sub_shm\<close> and \<^verbatim>\<open>strndup\<close> in
  \<^verbatim>\<open>sr_get_first_ns\<close> can allocate. \<open>shm_dir\<close> is \<^verbatim>\<open>SR_SHM_DIR\<close>.
  \<open>last_removed_uninit\<close> says whether the local variable \<^verbatim>\<open>int last_removed\<close>, which is
  declared without a value, happens to hold a non-zero value when the function is entered.
\<close>

record del_env =
  shm_dir :: string
  plain_char_signed :: bool
  shmmod_conf :: "nat \<Rightarrow> nat \<Rightarrow> sr_error option \<times> bool"
  shmmod_dp :: "nat \<Rightarrow> nat \<Rightarrow> sr_error option"
  shmmod_rpc :: "nat \<Rightarrow> sr_error option"
  shmmod_notif :: "nat \<Rightarrow> nat \<Rightarrow> sr_error option \<times> bool"
  asprintf_conf :: "nat \<Rightarrow> bool"
  asprintf_dp :: "nat \<Rightarrow> nat \<Rightarrow> bool"
  asprintf_rpc :: "nat \<Rightarrow> bool"
  asprintf_notif :: "nat \<Rightarrow> bool"
  strndup_rpc :: "nat \<Rightarrow> bool"
  last_removed_uninit :: bool

text \<open>
  The state of a loop: the array it works on, whether \<^verbatim>\<open>last_removed\<close> is non-zero, and
  the events so far. \<^verbatim>\<open>last_removed\<close> is one variable for the whole function, shared by the
  config and the notification part; only the directory routines store into it, so a group
  without entries leaves in it what it held before, and the first group reads what the
  variable held on entry.
\<close>

type_synonym 'a del_state = "'a \<times> bool \<times> del_event list"

text \<open>Config part, inner loop: entry \<open>j\<close> of group \<open>i\<close>.\<close>

definition conf_unsub_entry ::
  "del_env \<Rightarrow> 32 word \<Rightarrow> nat \<Rightarrow> string \<Rightarrow> sr_datastore_t \<Rightarrow> nat
     \<Rightarrow> modsub_confsub_s list del_state \<Rightarrow> modsub_confsub_s list del_state step" where
  "conf_unsub_entry env evpipe i name ds j st =
     (case st of (ents, lr, tr) \<Rightarrow>
        if \<not> j < length ents then Undef ''entry list read out of bounds''
        else if cs_xpath (ents ! j) = Dangling
        then Undef ''use after free: freed path handed to sr_shmmod_conf_subscription''
        else
          (let e = ents ! j;
               tr1 = tr @ [Unsub_conf name (case cs_xpath e of Ptr p \<Rightarrow> Some p | _ \<Rightarrow> None) ds
                             (cs_priority e) (cs_opts e) evpipe]
           in case shmmod_conf env i j of
                (Some err, v) \<Rightarrow> Stop err (ents, lr, tr1)
              | (None, v) \<Rightarrow>
                  Next (ents[j := e\<lparr>cs_xpath := free_ptr (cs_xpath e)\<rparr>], v, tr1)))"

text \<open>
  The inner loop of a group with a module name and an entry list, neither of which is read
  when the group has no entry.
\<close>

definition conf_unsub_entries ::
  "del_env \<Rightarrow> 32 word \<Rightarrow> nat \<Rightarrow> modsub_conf_s \<Rightarrow> bool \<Rightarrow> del_event list
     \<Rightarrow> modsub_confsub_s list ptr del_state step" where
  "conf_unsub_entries env evpipe i g lr tr =
     (if unat (c_sub_count g) = 0 then Next (c_subs g, lr, tr)
      else
        (case c_module_name g of
           Ptr name \<Rightarrow>
             (case c_subs g of
                Ptr ents \<Rightarrow>
                  (case for_loop (conf_unsub_entry env evpipe i name (c_ds g))
                          (unat (c_sub_count g)) 0 (ents, lr, tr) of
                     Next (ents', lr', tr') \<Rightarrow> Next (Ptr ents', lr', tr')
                   | Stop err (ents', lr', tr') \<Rightarrow> Stop err (Ptr ents', lr', tr')
                   | Undef m \<Rightarrow> Undef m)
              | _ \<Rightarrow> Undef ''entry read through a null or freed entry list'')
         | _ \<Rightarrow> Undef ''null or freed module name handed to sr_shmmod_conf_subscription''))"

text \<open>
  The rest of the body for one group, common to the config and notification kinds: unlink
  the segment file when \<^verbatim>\<open>last_removed\<close> is set. It yields the events, or the error of
  \<^verbatim>\<open>sr_path_sub_shm\<close>.
\<close>

definition unlink_if_last ::
  "string \<Rightarrow> bool \<Rightarrow> string ptr \<Rightarrow> string \<Rightarrow> bool \<Rightarrow> del_event list
     \<Rightarrow> del_event list step" where
  "unlink_if_last dir asprintf_ok module_name suffix lr tr =
     (if \<not> lr then Next tr
      else
        (case module_name of
           Ptr name \<Rightarrow>
             (case sr_path_sub_shm dir asprintf_ok name suffix (- 1) True of
                Inl err \<Rightarrow> Stop err tr
              | Inr path \<Rightarrow> Next (tr @ [Unlink_file path]))
         | _ \<Rightarrow> Undef ''null or freed module name printed by sr_path_sub_shm''))"

text \<open>Config part, outer loop: group \<open>i\<close>.\<close>

definition conf_del_group ::
  "del_env \<Rightarrow> 32 word \<Rightarrow> nat \<Rightarrow> modsub_conf_s list del_state \<Rightarrow> modsub_conf_s list del_state step" where
  "conf_del_group env evpipe i st =
     (case st of (arr, lr, tr) \<Rightarrow>
        if \<not> i < length arr then Undef ''group array read out of bounds''
        else
          (let g = arr ! i in
           case conf_unsub_entries env evpipe i g lr tr of
             Undef m \<Rightarrow> Undef m
           | Stop err (p, lr1, tr1) \<Rightarrow> Stop err (arr[i := g\<lparr>c_subs := p\<rparr>], lr1, tr1)
           | Next (p, lr1, tr1) \<Rightarrow>
               (case unlink_if_last (shm_dir env) (asprintf_conf env i) (c_module_name g)
                       (sr_ds2str (c_ds g)) lr1 tr1 of
                  Undef m \<Rightarrow> Undef m
                | Stop err tr2 \<Rightarrow> Stop err (arr[i := g\<lparr>c_subs := p\<rparr>], lr1, tr2)
                | Next tr2 \<Rightarrow>
                    if c_module_name g = Dangling then Undef ''double free of a module name''
                    else if p = Dangling then Undef ''double free of an entry list''
                    else Next (arr[i := g\<lparr>c_module_name := free_ptr (c_module_name g),
                                           c_subs := free_ptr p,
                                           c_sub_shm := fst (sr_shm_clear (c_sub_shm g))\<rparr>],
                               lr1, tr2))))"

text \<open>Data-provide part: entry \<open>j\<close> of group \<open>i\<close>, then group \<open>i\<close>.\<close>

definition dp_unsub_entry ::
  "del_env \<Rightarrow> 32 word \<Rightarrow> nat \<Rightarrow> string \<Rightarrow> nat
     \<Rightarrow> modsub_dpsub_s list del_state \<Rightarrow> modsub_dpsub_s list del_state step" where
  "dp_unsub_entry env evpipe i name j st =
     (case st of (ents, lr, tr) \<Rightarrow>
        if \<not> j < length ents then Undef ''entry list read out of bounds''
        else
          (case ds_xpath (ents ! j) of
             Ptr p \<Rightarrow>
               (let tr1 = tr @ [Unsub_dp name p evpipe] in
                case shmmod_dp env i j of
                  Some err \<Rightarrow> Stop err (ents, lr, tr1)
                | None \<Rightarrow>
                    (case sr_path_sub_shm (shm_dir env) (asprintf_dp env i j) name ''state''
                            (ucast (sr_str_hash (plain_char_signed env) p)) True of
                       Inl err \<Rightarrow> Stop err (ents, lr, tr1)
                     | Inr path \<Rightarrow>
                         Next (ents[j := (ents ! j)\<lparr>ds_xpath := Dangling,
                                 ds_sub_shm := fst (sr_shm_clear (ds_sub_shm (ents ! j)))\<rparr>],
                               lr, tr1 @ [Unlink_file path])))
           | _ \<Rightarrow> Undef ''null or freed path handed to sr_shmmod_dp_subscription''))"

definition dp_del_group ::
  "del_env \<Rightarrow> 32 word \<Rightarrow> nat \<Rightarrow> modsub_dp_s list del_state \<Rightarrow> modsub_dp_s list del_state step" where
  "dp_del_group env evpipe i st =
     (case st of (arr, lr, tr) \<Rightarrow>
        if \<not> i < length arr then Undef ''group array read out of bounds''
        else
          (let g = arr ! i in
           case (if unat (d_sub_count g) = 0 then Next (d_subs g, lr, tr)
                 else
                   (case d_module_name g of
                      Ptr name \<Rightarrow>
                        (case d_subs g of
                           Ptr ents \<Rightarrow>
                             (case for_loop (dp_unsub_entry env evpipe i name)
                                     (unat (d_sub_count g)) 0 (ents, lr, tr) of
                                Next (ents', lr', tr') \<Rightarrow> Next (Ptr ents', lr', tr')
                              | Stop err (ents', lr', tr') \<Rightarrow> Stop err (Ptr ents', lr', tr')
                              | Undef m \<Rightarrow> Undef m)
                         | _ \<Rightarrow> Undef ''entry read through a null or freed entry list'')
                    | _ \<Rightarrow> Undef ''null or freed module name handed to sr_shmmod_dp_subscription''))
           of
             Undef m \<Rightarrow> Undef m
           | Stop err (p, lr1, tr1) \<Rightarrow> Stop err (arr[i := g\<lparr>d_subs := p\<rparr>], lr1, tr1)
           | Next (p, lr1, tr1) \<Rightarrow>
               if d_module_name g = Dangling then Undef ''double free of a module name''
               else if p = Dangling then Undef ''double free of an entry list''
               else Next (arr[i := g\<lparr>d_module_name := free_ptr (d_module_name g),
                                      d_subs := free_ptr p\<rparr>], lr1, tr1)))"

text \<open>RPC part: subscription \<open>i\<close>.\<close>

definition rpc_del_entry ::
  "del_env \<Rightarrow> 32 word \<Rightarrow> nat \<Rightarrow> modsub_rpc_s list del_state \<Rightarrow> modsub_rpc_s list del_state step" where
  "rpc_del_entry env evpipe i st =
     (case st of (arr, lr, tr) \<Rightarrow>
        if \<not> i < length arr then Undef ''array read out of bounds''
        else
          (case r_xpath (arr ! i) of
             Ptr p \<Rightarrow>
               (case sr_get_first_ns (strndup_rpc env i) p of
                  None \<Rightarrow> Stop SR_ERR_INTERNAL (arr, lr, tr)
                | Some mod_name \<Rightarrow>
                    (let tr1 = tr @ [Unsub_rpc mod_name p evpipe] in
                     case shmmod_rpc env i of
                       Some err \<Rightarrow> Stop err (arr, lr, tr1)
                     | None \<Rightarrow>
                         (case sr_path_sub_shm (shm_dir env) (asprintf_rpc env i) mod_name ''rpc''
                                 (ucast (sr_str_hash (plain_char_signed env) p)) True of
                            Inl err \<Rightarrow> Stop err (arr, lr, tr1)
                          | Inr path \<Rightarrow>
                              Next (arr[i := (arr ! i)\<lparr>r_xpath := Dangling,
                                      r_sub_shm := fst (sr_shm_clear (r_sub_shm (arr ! i)))\<rparr>],
                                    lr, tr1 @ [Unlink_file path]))))
           | _ \<Rightarrow> Undef ''null or freed path read by sr_get_first_ns''))"

text \<open>Notification part: entry \<open>j\<close> of group \<open>i\<close>, then group \<open>i\<close>.\<close>

definition notif_unsub_entry ::
  "del_env \<Rightarrow> 32 word \<Rightarrow> nat \<Rightarrow> string \<Rightarrow> nat
     \<Rightarrow> modsub_notifsub_s list del_state \<Rightarrow> modsub_notifsub_s list del_state step" where
  "notif_unsub_entry env evpipe i name j st =
     (case st of (ents, lr, tr) \<Rightarrow>
        if \<not> j < length ents then Undef ''entry list read out of bounds''
        else
          (let tr1 = tr @ [Unsub_notif name evpipe] in
           case shmmod_notif env i j of
             (Some err, v) \<Rightarrow> Stop err (ents, lr, tr1)
           | (None, v) \<Rightarrow>
               if ns_xpath (ents ! j) = Dangling then Undef ''double free of a path''
               else Next (ents[j := (ents ! j)\<lparr>ns_xpath := free_ptr (ns_xpath (ents ! j))\<rparr>],
                          v, tr1)))"

definition notif_del_group ::
  "del_env \<Rightarrow> 32 word \<Rightarrow> nat \<Rightarrow> modsub_notif_s list del_state \<Rightarrow> modsub_notif_s list del_state step" where
  "notif_del_group env evpipe i st =
     (case st of (arr, lr, tr) \<Rightarrow>
        if \<not> i < length arr then Undef ''group array read out of bounds''
        else
          (let g = arr ! i in
           case (if unat (n_sub_count g) = 0 then Next (n_subs g, lr, tr)
                 else
                   (case n_module_name g of
                      Ptr name \<Rightarrow>
                        (case n_subs g of
                           Ptr ents \<Rightarrow>
                             (case for_loop (notif_unsub_entry env evpipe i name)
                                     (unat (n_sub_count g)) 0 (ents, lr, tr) of
                                Next (ents', lr', tr') \<Rightarrow> Next (Ptr ents', lr', tr')
                              | Stop err (ents', lr', tr') \<Rightarrow> Stop err (Ptr ents', lr', tr')
                              | Undef m \<Rightarrow> Undef m)
                         | _ \<Rightarrow> Undef ''entry read through a null or freed entry list'')
                    | _ \<Rightarrow> Undef ''null or freed module name handed to sr_shmmod_notif_subscription''))
           of
             Undef m \<Rightarrow> Undef m
           | Stop err (p, lr1, tr1) \<Rightarrow> Stop err (arr[i := g\<lparr>n_subs := p\<rparr>], lr1, tr1)
           | Next (p, lr1, tr1) \<Rightarrow>
               (case unlink_if_last (shm_dir env) (asprintf_notif env i) (n_module_name g)
                       ''notif'' lr1 tr1 of
                  Undef m \<Rightarrow> Undef m
                | Stop err tr2 \<Rightarrow> Stop err (arr[i := g\<lparr>n_subs := p\<rparr>], lr1, tr2)
                | Next tr2 \<Rightarrow>
                    if n_module_name g = Dangling then Undef ''double free of a module name''
                    else if p = Dangling then Undef ''double free of an entry list''
                    else Next (arr[i := g\<lparr>n_module_name := free_ptr (n_module_name g),
                                           n_subs := free_ptr p,
                                           n_sub_shm := fst (sr_shm_clear (n_sub_shm g))\<rparr>],
                               lr1, tr2))))"

text \<open>
  \<^verbatim>\<open>sr_subs_del_all(conn, subs)\<close>: the four parts in turn, each followed by \<^verbatim>\<open>free\<close> of
  its array, starting with whatever \<^verbatim>\<open>last_removed\<close> holds. The function takes no lock and
  assigns neither the four counts nor the four array pointers. It returns the error (if any), the handle and the events. When a part
  returns early its array is left as the loop reached it.
\<close>

definition sr_subs_del_all ::
  "del_env \<Rightarrow> sr_subscription_ctx_t
     \<Rightarrow> (sr_error option \<times> sr_subscription_ctx_t \<times> del_event list) outcome" where
  "sr_subs_del_all env subs =
     (case for_loop (conf_del_group env (evpipe_num subs)) (unat (conf_sub_count subs)) 0
             (arr_of (conf_subs subs), last_removed_uninit env, []) of
        Undef m \<Rightarrow> Undefined m
      | Stop err (arr, lr, tr) \<Rightarrow> Returned (Some err, subs\<lparr>conf_subs := Ptr arr\<rparr>, tr)
      | Next (arr, lr1, tr1) \<Rightarrow>
          if conf_subs subs = Dangling then Undefined ''double free of the config group array''
          else
            (let s1 = subs\<lparr>conf_subs := free_ptr (conf_subs subs)\<rparr> in
             case for_loop (dp_del_group env (evpipe_num s1)) (unat (dp_sub_count s1)) 0
                     (arr_of (dp_subs s1), lr1, tr1) of
               Undef m \<Rightarrow> Undefined m
             | Stop err (arr, lr, tr) \<Rightarrow> Returned (Some err, s1\<lparr>dp_subs := Ptr arr\<rparr>, tr)
             | Next (arr, lr2, tr2) \<Rightarrow>
                 if dp_subs s1 = Dangling
                 then Undefined ''double free of the data-provide group array''
                 else
                   (let s2 = s1\<lparr>dp_subs := free_ptr (dp_subs s1)\<rparr> in
                    case for_loop (rpc_del_entry env (evpipe_num s2)) (unat (rpc_sub_count s2)) 0
                            (arr_of (rpc_subs s2), lr2, tr2) of
                      Undef m \<Rightarrow> Undefined m
                    | Stop err (arr, lr, tr) \<Rightarrow> Returned (Some err, s2\<lparr>rpc_subs := Ptr arr\<rparr>, tr)
                    | Next (arr, lr3, tr3) \<Rightarrow>
                        if rpc_subs s2 = Dangling
                        then Undefined ''double free of the RPC array''
                        else
                          (let s3 = s2\<lparr>rpc_subs := free_ptr (rpc_subs s2)\<rparr> in
                           case for_loop (notif_del_group env (evpipe_num s3))
                                   (unat (notif_sub_count s3)) 0
                                   (arr_of (notif_subs s3), lr3, tr3) of
                             Undef m \<Rightarrow> Undefined m
                           | Stop err (arr, lr, tr) \<Rightarrow>
                               Returned (Some err, s3\<lparr>notif_subs := Ptr arr\<rparr>, tr)
                           | Next (arr, lr4, tr4) \<Rightarrow>
                               if notif_subs s3 = Dangling
                               then Undefined ''double free of the notification group array''
                               else Returned (None,
                                      s3\<lparr>notif_subs := free_ptr (notif_subs s3)\<rparr>, tr4)))))"

subsection \<open>Well-formed registries\<close>

text \<open>
  What a teardown relies on: in each counted group the module name is live and the entry
  list has not been freed, it holds at least the counted entries (it may be \<^verbatim>\<open>NULL\<close>
  when none is counted), and no counted path has been freed (a data-provide path is never
  \<^verbatim>\<open>NULL\<close>); the path of a counted RPC subscription is live and starts with a module
  name; each array holds at least the counted elements and none has been freed.
\<close>

definition wf_conf_group :: "modsub_conf_s \<Rightarrow> bool" where
  "wf_conf_group g =
     (case c_module_name g of
        Ptr name \<Rightarrow>
          (case c_subs g of
             Ptr ents \<Rightarrow>
               unat (c_sub_count g) \<le> length ents
               \<and> list_all (\<lambda>e. cs_xpath e \<noteq> Dangling) (take (unat (c_sub_count g)) ents)
           | Null \<Rightarrow> unat (c_sub_count g) = 0
           | Dangling \<Rightarrow> False)
      | _ \<Rightarrow> False)"

definition wf_dp_group :: "modsub_dp_s \<Rightarrow> bool" where
  "wf_dp_group g =
     (case d_module_name g of
        Ptr name \<Rightarrow>
          (case d_subs g of
             Ptr ents \<Rightarrow>
               unat (d_sub_count g) \<le> length ents
               \<and> list_all (\<lambda>e. case ds_xpath e of Ptr p \<Rightarrow> True | _ \<Rightarrow> False)
                    (take (unat (d_sub_count g)) ents)
           | Null \<Rightarrow> unat (d_sub_count g) = 0
           | Dangling \<Rightarrow> False)
      | _ \<Rightarrow> False)"

definition wf_rpc :: "modsub_rpc_s \<Rightarrow> bool" where
  "wf_rpc r = (case r_xpath r of Ptr p \<Rightarrow> sr_get_first_ns True p \<noteq> None | _ \<Rightarrow> False)"

definition wf_notif_group :: "modsub_notif_s \<Rightarrow> bool" where
  "wf_notif_group g =
     (case n_module_name g of
        Ptr name \<Rightarrow>
          (case n_subs g of
             Ptr ents \<Rightarrow>
               unat (n_sub_count g) \<le> length ents
               \<and> list_all (\<lambda>e. ns_xpath e \<noteq> Dangling) (take (unat (n_sub_count g)) ents)
           | Null \<Rightarrow> unat (n_sub_count g) = 0
           | Dangling \<Rightarrow> False)
      | _ \<Rightarrow> False)"

text \<open>An array pointer with its count.\<close>

definition wf_array :: "('a \<Rightarrow> bool) \<Rightarrow> 'a list ptr \<Rightarrow> 32 word \<Rightarrow> bool" where
  "wf_array ok p cnt =
     (case p of
        Null \<Rightarrow> cnt = 0
      | Ptr arr \<Rightarrow> unat cnt \<le> length arr \<and> list_all ok (take (unat cnt) arr)
      | Dangling \<Rightarrow> False)"

definition wf_subs :: "sr_subscription_ctx_t \<Rightarrow> bool" where
  "wf_subs subs =
     (wf_array wf_conf_group (conf_subs subs) (conf_sub_count subs)
      \<and> wf_array wf_dp_group (dp_subs subs) (dp_sub_count subs)
      \<and> wf_array wf_rpc (rpc_subs subs) (rpc_sub_count subs)
      \<and> wf_array wf_notif_group (notif_subs subs) (notif_sub_count subs))"

text \<open>An environment in which no directory routine and no allocation fails.\<close>

definition env_cooperates :: "del_env \<Rightarrow> bool" where
  "env_cooperates env =
     ((\<forall>i j. fst (shmmod_conf env i j) = None) \<and> (\<forall>i j. shmmod_dp env i j = None)
      \<and> (\<forall>i. shmmod_rpc env i = None) \<and> (\<forall>i j. fst (shmmod_notif env i j) = None)
      \<and> (\<forall>i. asprintf_conf env i) \<and> (\<forall>i j. asprintf_dp env i j) \<and> (\<forall>i. asprintf_rpc env i)
      \<and> (\<forall>i. asprintf_notif env i) \<and> (\<forall>i. strndup_rpc env i))"

subsection \<open>A small registry\<close>

text \<open>
  An environment in which every step of an add succeeds, the segment being opened on
  descriptor 5 and mapped over 4096 bytes; and the handle after a first config
  subscription to the whole of module \<open>m1\<close> in the running datastore.
\<close>

definition env_ok :: add_env where
  "env_ok = \<lparr>lock_ret = 0, realloc_groups_ok = True, strdup_name_ok = True,
     open_map = (None, \<lparr>shm_fd = 5, shm_size = 4096, shm_addr = Some 65536\<rparr>),
     realloc_subs_ok = True, strdup_xpath_ok = True\<rparr>"

definition conf_m1 :: modsub_conf_s where
  "conf_m1 = \<lparr>c_module_name = Ptr ''m1'', c_ds = SR_DS_RUNNING,
     c_subs = Ptr [\<lparr>cs_xpath = Null, cs_priority = 0, cs_opts = 0, cs_cb = 1,
                    cs_private_data = 2, cs_event_id = 0, cs_event = SR_SUB_EV_NONE\<rparr>],
     c_sub_count = 1,
     c_sub_shm = \<lparr>shm_fd = 5, shm_size = 4096, shm_addr = Some 65536\<rparr>\<rparr>"

definition subs_m1 :: sr_subscription_ctx_t where
  "subs_m1 = empty_subs\<lparr>conf_subs := Ptr [conf_m1], conf_sub_count := 1\<rparr>"

text \<open>Two RPC subscriptions, as two successful adds leave them.\<close>

definition rpc_a :: modsub_rpc_s where
  "rpc_a = \<lparr>r_xpath = Ptr ''/m1:a'', r_cb = 1, r_tree_cb = 0, r_private_data = 2,
     r_sub_shm = \<lparr>shm_fd = 5, shm_size = 4096, shm_addr = Some 65536\<rparr>\<rparr>"

definition rpc_b :: modsub_rpc_s where
  "rpc_b = \<lparr>r_xpath = Ptr ''/m1:b'', r_cb = 1, r_tree_cb = 0, r_private_data = 2,
     r_sub_shm = \<lparr>shm_fd = 5, shm_size = 4096, shm_addr = Some 65536\<rparr>\<rparr>"

definition subs_rpc1 :: sr_subscription_ctx_t where
  "subs_rpc1 = empty_subs\<lparr>rpc_subs := Ptr [rpc_a], rpc_sub_count := 1\<rparr>"

definition subs_rpc2 :: sr_subscription_ctx_t where
  "subs_rpc2 = empty_subs\<lparr>rpc_subs := Ptr [rpc_a, rpc_b], rpc_sub_count := 2\<rparr>"

text \<open>
  An environment in which every step of a teardown succeeds and every removal is the last
  one for its segment, \<^verbatim>\<open>last_removed\<close> being zero on entry.
\<close>

definition env_del_ok :: del_env where
  "env_del_ok = \<lparr>shm_dir = ''/dev/shm'', plain_char_signed = True,
     shmmod_conf = (\<lambda>i j. (None, True)), shmmod_dp = (\<lambda>i j. None), shmmod_rpc = (\<lambda>i. None),
     shmmod_notif = (\<lambda>i j. (None, True)),
     asprintf_conf = (\<lambda>i. True), asprintf_dp = (\<lambda>i j. True), asprintf_rpc = (\<lambda>i. True),
     asprintf_notif = (\<lambda>i. True), strndup_rpc = (\<lambda>i. True), last_removed_uninit = False\<rparr>"

text \<open>A handle with the config subscription and the two RPC subscriptions.\<close>

definition subs_m1_rpc2 :: sr_subscription_ctx_t where
  "subs_m1_rpc2 = subs_m1\<lparr>rpc_subs := Ptr [rpc_a, rpc_b], rpc_sub_count := 2\<rparr>"


text \<open>
  A handle whose only config group has no entry, as a first add leaves it when the copy of
  the path cannot be allocated.
\<close>

definition conf_m1_empty :: modsub_conf_s where
  "conf_m1_empty = \<lparr>c_module_name = Ptr ''m1'', c_ds = SR_DS_RUNNING,
     c_subs = Ptr [zero_confsub], c_sub_count = 0,
     c_sub_shm = \<lparr>shm_fd = 5, shm_size = 4096, shm_addr = Some 65536\<rparr>\<rparr>"

definition subs_m1_empty :: sr_subscription_ctx_t where
  "subs_m1_empty = empty_subs\<lparr>subs_lock := True, conf_subs := Ptr [conf_m1_empty],
     conf_sub_count := 1\<rparr>"

section \<open>Properties\<close>

subsection \<open>Absolute timeouts\<close>

lemma add_ms_rem_scaled:
  fixes w :: "32 word"
  shows "uint ((w mod 1000) * 1000000) = (uint w mod 1000) * 1000000"
proof -
  have lt: "uint w mod 1000 < 1000" by simp
  have ge: "0 \<le> uint w mod 1000" by simp
  have "uint ((w mod 1000) * 1000000) = ((uint w mod 1000) * 1000000) mod 2 ^ 32"
    by (simp add: uint_word_ariths uint_mod)
  also have "\<dots> = (uint w mod 1000) * 1000000"
    using lt ge by (intro mod_pos_pos_trivial) auto
  finally show ?thesis .
qed

lemma ms_split:
  fixes t :: int
  shows "(t div 1000) * 1000000000 + (t mod 1000) * 1000000 = t * 1000000"
  using div_mult_mod_eq [of t 1000] by linarith

lemma sr_time_get_Some:
  "sr_time_get (Some now) ts0 add_ms =
     \<lparr>tv_sec = tv_sec now
         + uint ((word_of_int (uint add_ms + tv_nsec now sdiv 1000000) :: 32 word) div 1000),
      tv_nsec = tv_nsec now smod 1000000
         + uint (((word_of_int (uint add_ms + tv_nsec now sdiv 1000000) :: 32 word) mod 1000)
                 * 1000000)\<rparr>"
  by (simp only: sr_time_get_def Let_def option.case)

lemma sr_time_get_normalized:
  assumes "0 \<le> tv_nsec now" "tv_nsec now < 1000000000"
  shows "0 \<le> tv_nsec (sr_time_get (Some now) ts0 add_ms)
       \<and> tv_nsec (sr_time_get (Some now) ts0 add_ms) < 1000000000"
proof -
  define w where "w = (word_of_int (uint add_ms + tv_nsec now sdiv 1000000) :: 32 word)"
  have m: "tv_nsec now smod 1000000 = tv_nsec now mod 1000000"
    using assms by (simp add: signed_modulo_int_def sgn_if)
  have a: "0 \<le> tv_nsec now mod 1000000" "tv_nsec now mod 1000000 < 1000000" by simp_all
  have b: "0 \<le> uint w mod 1000" "uint w mod 1000 < 1000" by simp_all
  have "tv_nsec (sr_time_get (Some now) ts0 add_ms)
        = tv_nsec now mod 1000000 + (uint w mod 1000) * 1000000"
    unfolding sr_time_get_Some w_def [symmetric] by (simp add: m add_ms_rem_scaled)
  then show ?thesis using a b by linarith
qed

text \<open>
  C9 (as amended). For a current time with \<open>tv_nsec\<close> in \<open>[0, 10^9)\<close> the result is always
  normalised, and when \<open>add_ms\<close> plus the whole milliseconds already in \<open>tv_nsec\<close> still
  fits in 32 bits the result is the current time plus exactly \<open>add_ms\<close> milliseconds.
\<close>

theorem sr_time_get_adds_ms:
  assumes "0 \<le> tv_nsec now" and "tv_nsec now < 1000000000"
    and "uint add_ms + tv_nsec now div 1000000 < 2 ^ 32"
  shows "ts_nanos (sr_time_get (Some now) ts0 add_ms) = ts_nanos now + uint add_ms * 1000000
       \<and> 0 \<le> tv_nsec (sr_time_get (Some now) ts0 add_ms)
       \<and> tv_nsec (sr_time_get (Some now) ts0 add_ms) < 1000000000"
proof -
  let ?n = "tv_nsec now"
  let ?t = "uint add_ms + ?n div 1000000"
  define w where "w = (word_of_int (uint add_ms + ?n sdiv 1000000) :: 32 word)"
  have d: "?n sdiv 1000000 = ?n div 1000000"
    using assms(1) by (simp add: signed_divide_int_def sgn_if)
  have m: "?n smod 1000000 = ?n mod 1000000"
    using assms(1) by (simp add: signed_modulo_int_def sgn_if)
  have t0: "0 \<le> ?t" using assms(1) by (simp add: pos_imp_zdiv_nonneg_iff)
  have "uint w = (uint add_ms + ?n sdiv 1000000) mod 2 ^ LENGTH(32)"
    unfolding w_def by (rule uint_word_of_int)
  also have "\<dots> = ?t"
    using t0 assms(3) by (simp only: d) simp
  finally have w: "uint w = ?t" .
  have sec: "tv_sec (sr_time_get (Some now) ts0 add_ms) = tv_sec now + ?t div 1000"
    unfolding sr_time_get_Some w_def [symmetric] by (simp add: uint_div w)
  have nsec: "tv_nsec (sr_time_get (Some now) ts0 add_ms)
        = ?n mod 1000000 + (?t mod 1000) * 1000000"
    unfolding sr_time_get_Some w_def [symmetric] by (simp add: m add_ms_rem_scaled w)
  have split_t: "(?t div 1000) * 1000000000 + (?t mod 1000) * 1000000 = ?t * 1000000"
    by (rule ms_split)
  have split_n: "?n = (?n div 1000000) * 1000000 + ?n mod 1000000" by simp
  have "ts_nanos (sr_time_get (Some now) ts0 add_ms)
        = tv_sec now * 1000000000
          + ((?t div 1000) * 1000000000 + (?t mod 1000) * 1000000) + ?n mod 1000000"
    by (simp add: ts_nanos_def sec nsec algebra_simps)
  also have "\<dots> = tv_sec now * 1000000000 + ?t * 1000000 + ?n mod 1000000"
    by (simp only: split_t)
  also have "\<dots> = tv_sec now * 1000000000 + uint add_ms * 1000000
          + ((?n div 1000000) * 1000000 + ?n mod 1000000)"
    by (simp add: algebra_simps)
  also have "\<dots> = ts_nanos now + uint add_ms * 1000000"
    using split_n by (simp add: ts_nanos_def)
  finally have total: "ts_nanos (sr_time_get (Some now) ts0 add_ms)
        = ts_nanos now + uint add_ms * 1000000" .
  show ?thesis using total sr_time_get_normalized [OF assms(1,2)] by simp
qed

theorem sr_time_get_adds_ms_witness:
  "0 \<le> tv_nsec \<lparr>tv_sec = 100, tv_nsec = 999500000\<rparr>
   \<and> tv_nsec \<lparr>tv_sec = 100, tv_nsec = 999500000\<rparr> < 1000000000
   \<and> uint (1500 :: 32 word) + tv_nsec \<lparr>tv_sec = 100, tv_nsec = 999500000\<rparr> div 1000000 < 2 ^ 32
   \<and> ts_nanos (sr_time_get (Some \<lparr>tv_sec = 100, tv_nsec = 999500000\<rparr>)
        \<lparr>tv_sec = 0, tv_nsec = 0\<rparr> 1500) = 102499500000"
  using sr_time_get_adds_ms [of "\<lparr>tv_sec = 100, tv_nsec = 999500000\<rparr>" 1500
      "\<lparr>tv_sec = 0, tv_nsec = 0\<rparr>"]
  by (simp add: ts_nanos_def)

text \<open>
  The claim as stated, for every \<open>add_ms\<close>, fails where the 32-bit sum wraps: at
  \<open>add_ms = 2^32 - 1\<close> and 999 ms already in \<open>tv_nsec\<close> the result is 998 ms after the
  whole second, not 4294967295 ms after the current time.
\<close>

theorem sr_time_get_wraps_counterexample:
  "ts_nanos (sr_time_get (Some \<lparr>tv_sec = 0, tv_nsec = 999000000\<rparr>)
       \<lparr>tv_sec = 0, tv_nsec = 0\<rparr> 4294967295) = 998000000
   \<and> ts_nanos (sr_time_get (Some \<lparr>tv_sec = 0, tv_nsec = 999000000\<rparr>)
       \<lparr>tv_sec = 0, tv_nsec = 0\<rparr> 4294967295)
     \<noteq> ts_nanos \<lparr>tv_sec = 0, tv_nsec = 999000000\<rparr> + uint (4294967295 :: 32 word) * 1000000"
  by (simp add: sr_time_get_Some ts_nanos_def signed_divide_int_def signed_modulo_int_def)

subsection \<open>Segment names and the path hash\<close>

lemma sr_str_hash_loop_fold:
  "unat len \<le> length str \<Longrightarrow>
   sr_str_hash_loop sg str len hash i
     = fold (hash_step sg) (drop (unat i) (take (unat len) str)) hash"
proof (induction sg str len hash i rule: sr_str_hash_loop.induct)
  case (1 sg str len hash i)
  show ?case
  proof (cases "i < len")
    case False
    then have "unat len \<le> unat i" by (simp add: word_less_nat_alt)
    then have "drop (unat i) (take (unat len) str) = []" by simp
    with False show ?thesis by (subst sr_str_hash_loop.simps) simp
  next
    case True
    then have lt: "unat i < unat len" by (simp add: word_less_nat_alt)
    have "unat len < 2 ^ 32" using unsigned_less [of len] by simp
    with lt have "(unat i + 1) mod 2 ^ 32 = unat i + 1" by simp
    then have suc: "unat (i + 1) = Suc (unat i)" by (simp add: unat_word_ariths)
    have len: "unat i < length (take (unat len) str)" using lt "1.prems" by simp
    have d: "drop (unat i) (take (unat len) str)
         = str ! unat i # drop (Suc (unat i)) (take (unat len) str)"
      using len lt by (simp add: Cons_nth_drop_Suc [symmetric])
    have "sr_str_hash_loop sg str len hash i
         = sr_str_hash_loop sg str len (hash_step sg (str ! unat i) hash) (i + 1)"
      using True by (subst sr_str_hash_loop.simps) (simp add: hash_step_def Let_def)
    also have "\<dots> = fold (hash_step sg) (drop (unat (i + 1)) (take (unat len) str))
                       (hash_step sg (str ! unat i) hash)"
      unfolding hash_step_def [of sg "str ! unat i" hash] Let_def
      by (rule "1.IH" [OF True refl refl refl "1.prems"])
    finally show ?thesis by (simp add: suc d)
  qed
qed

lemma char_to_int_byte:
  "\<not> sg \<or> of_char c < (128::nat) \<Longrightarrow>
   (word_of_int (char_to_int sg c) :: 32 word) = ucast (of_nat (of_char c) :: 8 word)"
  by (auto simp: char_to_int_def Let_def unsigned_of_nat take_bit_nat_eq_self)

lemma hash_step_oaat:
  "\<not> sg \<or> of_char c < (128::nat) \<Longrightarrow> hash_step sg c h = oaat_round h (of_nat (of_char c))"
  by (simp only: hash_step_def oaat_round_def char_to_int_byte)

lemma fold_hash_step_oaat:
  "\<not> sg \<or> (\<forall>c \<in> set cs. of_char c < (128::nat)) \<Longrightarrow>
   fold (hash_step sg) cs h = fold (\<lambda>b h. oaat_round h b) (path_bytes cs) h"
proof (induction cs arbitrary: h)
  case Nil
  show ?case by (simp add: path_bytes_def)
next
  case (Cons c cs)
  have c: "\<not> sg \<or> of_char c < (128::nat)" using Cons.prems by auto
  have cs: "\<not> sg \<or> (\<forall>c \<in> set cs. of_char c < (128::nat))" using Cons.prems by auto
  show ?case
    using Cons.IH [OF cs] by (simp add: hash_step_oaat [OF c] path_bytes_def)
qed

lemma sr_str_hash_jenkins:
  assumes "length str < 2 ^ 32" and "\<not> sg \<or> (\<forall>c \<in> set str. of_char c < (128::nat))"
  shows "sr_str_hash sg str = jenkins_one_at_a_time (path_bytes str)"
proof -
  have len: "unat (of_nat (length str) :: 32 word) = length str"
    using assms(1) by (simp add: unat_of_nat)
  have "sr_str_hash_loop sg str (of_nat (length str)) 0 0 = fold (hash_step sg) str 0"
    using sr_str_hash_loop_fold [of "of_nat (length str)" str sg 0 0] len by simp
  then show ?thesis
    using fold_hash_step_oaat [OF assms(2), of 0]
    by (simp add: sr_str_hash_def jenkins_one_at_a_time_def Let_def)
qed


lemma hex_digit_val_table: "\<forall>d\<in>{0..<16}. hex_digit_val (hex_digit d) = d"
  by code_simp

lemma hex_digit_val_inverse: "d < 16 \<Longrightarrow> hex_digit_val (hex_digit d) = d"
  using hex_digit_val_table by simp

lemma hex_digit_lowercase: "d < 16 \<Longrightarrow> hex_digit d \<in> set ''0123456789abcdef''"
  unfolding hex_digit_def by (rule nth_mem) simp

lemma hex_val_snoc: "hex_val (s @ [c]) = 16 * hex_val s + hex_digit_val c"
  by (simp add: hex_val_def)

lemma hex_val_hex_digits: "hex_val (hex_digits n) = n"
proof (induction n rule: hex_digits.induct)
  case (1 n)
  show ?case
  proof (cases "n < 16")
    case True
    then show ?thesis
      by (subst hex_digits.simps) (simp add: hex_val_def hex_digit_val_inverse)
  next
    case False
    have "hex_val (hex_digits n) = 16 * hex_val (hex_digits (n div 16)) + hex_digit_val (hex_digit (n mod 16))"
      using False by (subst hex_digits.simps) (simp add: hex_val_snoc)
    also have "\<dots> = 16 * (n div 16) + n mod 16"
      using "1.IH" [OF False] by (simp add: hex_digit_val_inverse)
    finally show ?thesis by simp
  qed
qed

lemma hex_digits_lowercase: "set (hex_digits n) \<subseteq> set ''0123456789abcdef''"
proof (induction n rule: hex_digits.induct)
  case (1 n)
  show ?case
  proof (cases "n < 16")
    case True
    then show ?thesis
      using hex_digit_lowercase [of n] by (subst hex_digits.simps) simp
  next
    case False
    have "n mod 16 < 16" by simp
    then show ?thesis
      using "1.IH" [OF False] hex_digit_lowercase [of "n mod 16"] False
      by (subst hex_digits.simps) simp
  qed
qed

lemma hex_digits_length: "0 < k \<Longrightarrow> n < 16 ^ k \<Longrightarrow> length (hex_digits n) \<le> k"
proof (induction n arbitrary: k rule: hex_digits.induct)
  case (1 n)
  show ?case
  proof (cases "n < 16")
    case True
    then show ?thesis using "1.prems" by (subst hex_digits.simps) simp
  next
    case False
    then obtain j where k: "k = Suc j" using "1.prems" by (cases k) auto
    have "j \<noteq> 0" using False "1.prems" k by (cases j) auto
    then have j: "0 < j" by simp
    have "n div 16 < 16 ^ j" using "1.prems"(2) k by (simp add: less_mult_imp_div_less mult.commute)
    then have "length (hex_digits (n div 16)) \<le> j" using "1.IH" [OF False j] by simp
    then show ?thesis using False k by (subst hex_digits.simps) simp
  qed
qed

lemma hex_val_zero_pad: "hex_val (replicate k CHR ''0'' @ s) = hex_val s"
proof -
  have z: "hex_digit_val CHR ''0'' = 0"
    by (simp add: hex_digit_val_def)
  have "foldl (\<lambda>a c. 16 * a + hex_digit_val c) 0 (replicate k CHR ''0'') = 0"
    by (induction k) (simp_all add: z)
  then show ?thesis by (simp add: hex_val_def)
qed

lemma printf_08x_length: "length (printf_08x v) = 8"
proof -
  have "unat v < 16 ^ 8" using unsigned_less [of v] by simp
  then have "length (hex_digits (unat v)) \<le> 8" by (intro hex_digits_length) simp_all
  then show ?thesis by (simp add: printf_08x_def Let_def)
qed

lemma printf_08x_lowercase: "set (printf_08x v) \<subseteq> set ''0123456789abcdef''"
  using hex_digits_lowercase [of "unat v"] by (auto simp: printf_08x_def Let_def)

lemma printf_08x_value: "hex_val (printf_08x v) = unat v"
  by (simp add: printf_08x_def Let_def hex_val_zero_pad hex_val_hex_digits)


lemma hash_as_suffix2_low: "(ucast (ucast (h :: 32 word) :: 64 word) :: 32 word) = h"
  by (rule bit_word_eqI) (auto simp: bit_simps)

lemma sint_hash_as_suffix2: "sint (ucast (h :: 32 word) :: 64 word) = uint h"
proof -
  have lo: "0 \<le> uint h" by simp
  have "uint h < 2 ^ 32" using uint_lt2p [of h] by simp
  then have hi: "uint h < 2 ^ 63" "uint h < 2 ^ 64" by simp_all
  have t: "take_bit 64 (uint h) = uint h"
    using lo hi by (simp add: take_bit_int_eq_self)
  have "- (2 ^ 63) \<le> (0 :: int)"
    by simp
  then have "- (2 ^ 63) \<le> uint h"
    using lo by (rule order_trans)
  then have "signed_take_bit 63 (uint h) = uint h"
    using hi(1) by (rule signed_take_bit_int_eq_self)
  then show ?thesis
    by (simp add: signed_ucast_eq t)
qed

lemma hash_as_suffix2_nonneg: "- 1 <s (ucast (h :: 32 word) :: 64 word)"
proof -
  have "(0::int) \<le> uint h" by simp
  then have "- 1 < uint h" by linarith
  then show ?thesis by (simp add: word_sless_alt sint_hash_as_suffix2)
qed

text \<open>
  C6 (as amended). With a discriminator (any \<open>suffix2\<close> above -1) the path is
  \<open>root/sr_module.suffix.\<close> followed by the low 32 bits of the discriminator as exactly
  eight lowercase hexadecimal digits; without one (\<open>suffix2 = -1\<close>) it is
  \<open>root/sr_module.suffix\<close>. The discriminator of a per-path segment is \<open>sr_str_hash\<close> of
  the path, a function of the path alone; it equals Jenkins' one-at-a-time hash of the
  path's bytes when the path is shorter than \<open>2^32\<close> bytes and either plain \<open>char\<close> is
  unsigned or every byte is below 128, and it reproduces the published test vectors.
\<close>
theorem sr_path_sub_shm_format:
  assumes "- 1 <s d"
    and "length path < 2 ^ 32"
    and "\<not> char_signed \<or> (\<forall>c \<in> set path. of_char c < (128 :: nat))"
  shows "sr_path_sub_shm dir True m sfx d abs_path
           = Inr ((if abs_path then dir else '''') @ ''/sr_'' @ m @ ''.'' @ sfx @ ''.''
                  @ printf_08x (ucast d))
       \<and> length (printf_08x (ucast d)) = 8
       \<and> set (printf_08x (ucast d)) \<subseteq> set ''0123456789abcdef''
       \<and> hex_val (printf_08x (ucast d)) = unat (ucast d :: 32 word)
       \<and> sr_path_sub_shm dir True m sfx (- 1) abs_path
           = Inr ((if abs_path then dir else '''') @ ''/sr_'' @ m @ ''.'' @ sfx)
       \<and> sr_path_sub_shm dir True m sfx (ucast (sr_str_hash char_signed path)) abs_path
           = Inr ((if abs_path then dir else '''') @ ''/sr_'' @ m @ ''.'' @ sfx @ ''.''
                  @ printf_08x (sr_str_hash char_signed path))
       \<and> sr_str_hash char_signed path = jenkins_one_at_a_time (path_bytes path)
       \<and> sr_str_hash char_signed ''a'' = 0xca2e9442
       \<and> sr_str_hash char_signed ''The quick brown fox jumps over the lazy dog'' = 0x519e91f5"
proof -
  have v1: "jenkins_one_at_a_time (path_bytes ''a'') = 0xca2e9442"
    by (simp add: jenkins_one_at_a_time_def path_bytes_def oaat_round_def)
  have v2: "jenkins_one_at_a_time (path_bytes ''The quick brown fox jumps over the lazy dog'')
        = 0x519e91f5"
    by (simp add: jenkins_one_at_a_time_def path_bytes_def oaat_round_def)
  have t1: "sr_str_hash char_signed ''a'' = 0xca2e9442"
    by (subst sr_str_hash_jenkins) (simp_all add: v1)
  have t2: "sr_str_hash char_signed ''The quick brown fox jumps over the lazy dog'' = 0x519e91f5"
    by (subst sr_str_hash_jenkins) (simp_all add: v2)
  have p1: "sr_path_sub_shm dir True m sfx d abs_path
           = Inr ((if abs_path then dir else '''') @ ''/sr_'' @ m @ ''.'' @ sfx @ ''.''
                  @ printf_08x (ucast d))"
    using assms(1) by (simp add: sr_path_sub_shm_def)
  have p2: "sr_path_sub_shm dir True m sfx (- 1) abs_path
           = Inr ((if abs_path then dir else '''') @ ''/sr_'' @ m @ ''.'' @ sfx)"
    by (simp add: sr_path_sub_shm_def)
  have p3: "sr_path_sub_shm dir True m sfx (ucast (sr_str_hash char_signed path)) abs_path
           = Inr ((if abs_path then dir else '''') @ ''/sr_'' @ m @ ''.'' @ sfx @ ''.''
                  @ printf_08x (sr_str_hash char_signed path))"
    by (simp add: sr_path_sub_shm_def hash_as_suffix2_nonneg hash_as_suffix2_low)
  show ?thesis
    using p1 p2 p3 t1 t2 sr_str_hash_jenkins [OF assms(2,3)]
    by (simp only: printf_08x_length printf_08x_lowercase printf_08x_value simp_thms)
qed

theorem sr_path_sub_shm_format_witness:
  "- 1 <s (7 :: 64 word) \<and> length ''/m1:a'' < 2 ^ 32
   \<and> list_all (\<lambda>c. of_char c < (128 :: nat)) ''/m1:a''
   \<and> sr_path_sub_shm ''/dev/shm'' True ''m1'' ''state'' 7 True
         = Inr ''/dev/shm/sr_m1.state.00000007''
   \<and> sr_str_hash True ''/m1:a'' = jenkins_one_at_a_time (path_bytes ''/m1:a'')"
proof -
  have h1: "- 1 <s (7 :: 64 word)"
    by (simp add: word_sless_alt)
  have h2: "length ''/m1:a'' < 2 ^ 32"
    by simp
  have h3: "\<forall>c \<in> set ''/m1:a''. of_char c < (128 :: nat)"
    by simp
  note t = sr_path_sub_shm_format [where d = 7 and path = "''/m1:a''" and char_signed = True
      and dir = "''/dev/shm''" and m = "''m1''" and sfx = "''state''" and abs_path = True,
      OF h1 h2 disjI2 [OF h3]]
  have d: "hex_digits 7 = ''7''"
    by (simp add: hex_digits.simps hex_digit_def)
  have r: "replicate 7 CHR ''0'' = ''0000000''"
    by code_simp
  have p: "printf_08x 7 = ''00000007''"
    by (simp add: printf_08x_def d r)
  have c1: "sr_path_sub_shm ''/dev/shm'' True ''m1'' ''state'' 7 True
         = Inr ''/dev/shm/sr_m1.state.00000007''"
    using t [THEN conjunct1] by (simp add: p)
  have c2: "sr_str_hash True ''/m1:a'' = jenkins_one_at_a_time (path_bytes ''/m1:a'')"
    using t [THEN conjunct2, THEN conjunct2, THEN conjunct2, THEN conjunct2, THEN conjunct2,
      THEN conjunct2, THEN conjunct1] .
  have h3': "list_all (\<lambda>c. of_char c < (128 :: nat)) ''/m1:a''"
    by simp
  show ?thesis
    using h1 h2 h3' c1 c2 by (intro conjI)
qed

text \<open>
  As stated, for every path, the claim fails where plain \<open>char\<close> is signed: the one-byte
  path \<open>0x80\<close> is added as -128, and the result differs from the hash of the byte 128.
\<close>

theorem sr_str_hash_signed_char_counterexample:
  "sr_str_hash True [CHR 0x80] = 0xc31d4e27
   \<and> jenkins_one_at_a_time (path_bytes [CHR 0x80]) = 0x277fcedb
   \<and> sr_str_hash True [CHR 0x80] \<noteq> jenkins_one_at_a_time (path_bytes [CHR 0x80])"
  by (simp add: sr_str_hash_def char_to_int_def sr_str_hash_loop.simps
      jenkins_one_at_a_time_def path_bytes_def oaat_round_def)


subsection \<open>Remapping a shared segment\<close>

text \<open>
  C8. For every call, whatever the system calls answer. The size of the file is read
  exactly when no new size is given, and when that read fails the call returns
  \<^verbatim>\<open>SR_ERR_SYS\<close> with the segment untouched and nothing else done. Otherwise, with
  \<open>want\<close> the size that counts (the new size if given, else the file size read): if
  \<open>want\<close> equals the size of the mapping nothing else happens and the segment is unchanged;
  if not, the old mapping, if any, is unmapped and the file is truncated to the new size
  only when one was given. When that truncation fails the call returns \<^verbatim>\<open>SR_ERR_SYS\<close>,
  the address is \<^verbatim>\<open>NULL\<close>, the size field keeps its old value and nothing is
  mapped. Otherwise \<open>want\<close> becomes the segment's size and the file is mapped read-write and
  shared over \<open>want\<close> bytes: the address is the one \<^verbatim>\<open>mmap\<close> returned, or, when
  \<^verbatim>\<open>mmap\<close> fails, \<^verbatim>\<open>NULL\<close> with \<^verbatim>\<open>SR_ERR_NOMEM\<close> returned.
\<close>

theorem sr_shm_remap_steps:
  "(Fstat (shm_fd shm) \<in> set (snd (snd (sr_shm_remap env shm new_shm_size)))
      \<longleftrightarrow> new_shm_size = 0)
   \<and> (new_shm_size = 0 \<and> fstat_size env = None \<longrightarrow>
        sr_shm_remap env shm new_shm_size = (Some SR_ERR_SYS, shm, [Fstat (shm_fd shm)]))
   \<and> ((new_shm_size \<noteq> 0 \<and> want = new_shm_size)
        \<or> (new_shm_size = 0 \<and> fstat_size env = Some want) \<longrightarrow>
        (want = shm_size shm \<longrightarrow>
           sr_shm_remap env shm new_shm_size
             = (None, shm, if new_shm_size = 0 then [Fstat (shm_fd shm)] else []))
      \<and> (want \<noteq> shm_size shm \<and> new_shm_size \<noteq> 0 \<and> \<not> ftruncate_ok env \<longrightarrow>
           sr_shm_remap env shm new_shm_size
             = (Some SR_ERR_SYS, shm\<lparr>shm_addr := None\<rparr>,
                (case shm_addr shm of None \<Rightarrow> [] | Some old \<Rightarrow> [Munmap old (shm_size shm)])
                @ [Ftruncate (shm_fd shm) new_shm_size]))
      \<and> (want \<noteq> shm_size shm \<and> (new_shm_size \<noteq> 0 \<longrightarrow> ftruncate_ok env)
           \<and> mmap_addr env = None \<longrightarrow>
           sr_shm_remap env shm new_shm_size
             = (Some SR_ERR_NOMEM, shm\<lparr>shm_size := want, shm_addr := None\<rparr>,
                (if new_shm_size = 0 then [Fstat (shm_fd shm)] else [])
                @ (case shm_addr shm of None \<Rightarrow> [] | Some old \<Rightarrow> [Munmap old (shm_size shm)])
                @ (if new_shm_size \<noteq> 0 then [Ftruncate (shm_fd shm) new_shm_size] else [])
                @ [Mmap want [PROT_READ, PROT_WRITE] MAP_SHARED (shm_fd shm) 0]))
      \<and> (want \<noteq> shm_size shm \<and> (new_shm_size \<noteq> 0 \<longrightarrow> ftruncate_ok env)
           \<and> mmap_addr env = Some a \<longrightarrow>
           sr_shm_remap env shm new_shm_size
             = (None, shm\<lparr>shm_size := want, shm_addr := Some a\<rparr>,
                (if new_shm_size = 0 then [Fstat (shm_fd shm)] else [])
                @ (case shm_addr shm of None \<Rightarrow> [] | Some old \<Rightarrow> [Munmap old (shm_size shm)])
                @ (if new_shm_size \<noteq> 0 then [Ftruncate (shm_fd shm) new_shm_size] else [])
                @ [Mmap want [PROT_READ, PROT_WRITE] MAP_SHARED (shm_fd shm) 0])))"
  by (cases "new_shm_size = 0")
     (auto simp: sr_shm_remap_def sr_file_get_size_def Let_def split: option.splits)

text \<open>
  One call for each way out: a successful remap to an explicit size, an unchanged size, a
  failing \<^verbatim>\<open>fstat\<close>, a failing \<^verbatim>\<open>ftruncate\<close> and a failing \<^verbatim>\<open>mmap\<close>.
\<close>

theorem sr_shm_remap_steps_witness:
  "sr_shm_remap \<lparr>fstat_size = None, ftruncate_ok = True, mmap_addr = Some 4096\<rparr>
       \<lparr>shm_fd = 3, shm_size = 4096, shm_addr = Some 8192\<rparr> 8192
     = (None, \<lparr>shm_fd = 3, shm_size = 8192, shm_addr = Some 4096\<rparr>,
        [Munmap 8192 4096, Ftruncate 3 8192,
         Mmap 8192 [PROT_READ, PROT_WRITE] MAP_SHARED 3 0])
   \<and> sr_shm_remap \<lparr>fstat_size = Some 4096, ftruncate_ok = True, mmap_addr = Some 4096\<rparr>
       \<lparr>shm_fd = 3, shm_size = 4096, shm_addr = Some 8192\<rparr> 0
     = (None, \<lparr>shm_fd = 3, shm_size = 4096, shm_addr = Some 8192\<rparr>, [Fstat 3])
   \<and> sr_shm_remap \<lparr>fstat_size = None, ftruncate_ok = True, mmap_addr = Some 4096\<rparr>
       \<lparr>shm_fd = 3, shm_size = 4096, shm_addr = Some 8192\<rparr> 0
     = (Some SR_ERR_SYS, \<lparr>shm_fd = 3, shm_size = 4096, shm_addr = Some 8192\<rparr>, [Fstat 3])
   \<and> sr_shm_remap \<lparr>fstat_size = None, ftruncate_ok = False, mmap_addr = Some 4096\<rparr>
       \<lparr>shm_fd = 3, shm_size = 4096, shm_addr = None\<rparr> 8192
     = (Some SR_ERR_SYS, \<lparr>shm_fd = 3, shm_size = 4096, shm_addr = None\<rparr>, [Ftruncate 3 8192])
   \<and> sr_shm_remap \<lparr>fstat_size = Some 8192, ftruncate_ok = True, mmap_addr = None\<rparr>
       \<lparr>shm_fd = 3, shm_size = 4096, shm_addr = Some 8192\<rparr> 0
     = (Some SR_ERR_NOMEM, \<lparr>shm_fd = 3, shm_size = 8192, shm_addr = None\<rparr>,
        [Fstat 3, Munmap 8192 4096, Mmap 8192 [PROT_READ, PROT_WRITE] MAP_SHARED 3 0])"
proof -
  let ?shm = "\<lparr>shm_fd = 3, shm_size = 4096, shm_addr = Some 8192\<rparr>"
  have a: "sr_shm_remap \<lparr>fstat_size = None, ftruncate_ok = True, mmap_addr = Some 4096\<rparr>
       ?shm 8192
     = (None, \<lparr>shm_fd = 3, shm_size = 8192, shm_addr = Some 4096\<rparr>,
        [Munmap 8192 4096, Ftruncate 3 8192,
         Mmap 8192 [PROT_READ, PROT_WRITE] MAP_SHARED 3 0])"
    using sr_shm_remap_steps [where new_shm_size = 8192 and want = 8192 and a = 4096
        and env = "\<lparr>fstat_size = None, ftruncate_ok = True, mmap_addr = Some 4096\<rparr>"
        and shm = ?shm]
    by simp
  have b: "sr_shm_remap \<lparr>fstat_size = Some 4096, ftruncate_ok = True, mmap_addr = Some 4096\<rparr>
       ?shm 0
     = (None, ?shm, [Fstat 3])"
    using sr_shm_remap_steps [where new_shm_size = 0 and want = 4096 and a = 4096
        and env = "\<lparr>fstat_size = Some 4096, ftruncate_ok = True, mmap_addr = Some 4096\<rparr>"
        and shm = ?shm]
    by simp
  have c: "sr_shm_remap \<lparr>fstat_size = None, ftruncate_ok = True, mmap_addr = Some 4096\<rparr>
       ?shm 0
     = (Some SR_ERR_SYS, ?shm, [Fstat 3])"
    using sr_shm_remap_steps [where new_shm_size = 0 and want = 0 and a = 4096
        and env = "\<lparr>fstat_size = None, ftruncate_ok = True, mmap_addr = Some 4096\<rparr>"
        and shm = ?shm]
    by simp
  have d: "sr_shm_remap \<lparr>fstat_size = None, ftruncate_ok = False, mmap_addr = Some 4096\<rparr>
       \<lparr>shm_fd = 3, shm_size = 4096, shm_addr = None\<rparr> 8192
     = (Some SR_ERR_SYS, \<lparr>shm_fd = 3, shm_size = 4096, shm_addr = None\<rparr>, [Ftruncate 3 8192])"
    using sr_shm_remap_steps [where new_shm_size = 8192 and want = 8192 and a = 4096
        and env = "\<lparr>fstat_size = None, ftruncate_ok = False, mmap_addr = Some 4096\<rparr>"
        and shm = "\<lparr>shm_fd = 3, shm_size = 4096, shm_addr = None\<rparr>"]
    by simp
  have e: "sr_shm_remap \<lparr>fstat_size = Some 8192, ftruncate_ok = True, mmap_addr = None\<rparr>
       ?shm 0
     = (Some SR_ERR_NOMEM, \<lparr>shm_fd = 3, shm_size = 8192, shm_addr = None\<rparr>,
        [Fstat 3, Munmap 8192 4096, Mmap 8192 [PROT_READ, PROT_WRITE] MAP_SHARED 3 0])"
    using sr_shm_remap_steps [where new_shm_size = 0 and want = 8192 and a = 4096
        and env = "\<lparr>fstat_size = Some 8192, ftruncate_ok = True, mmap_addr = None\<rparr>"
        and shm = ?shm]
    by simp
  show ?thesis using a b c d e by (intro conjI)
qed

text \<open>
  A size that differs does not always end in a new mapping of that size. With a mapping
  of 4096 bytes at address 8192 and a request for 8192 bytes, a failing
  \<^verbatim>\<open>ftruncate\<close> leaves the segment unmapped, its address \<^verbatim>\<open>NULL\<close> and its
  size field still 4096, with no \<^verbatim>\<open>mmap\<close> issued; a failing \<^verbatim>\<open>mmap\<close>
  sets the size field to 8192 over no mapping at all.
\<close>

theorem sr_shm_remap_failure_counterexample:
  "sr_shm_remap \<lparr>fstat_size = None, ftruncate_ok = False, mmap_addr = Some 4096\<rparr>
       \<lparr>shm_fd = 3, shm_size = 4096, shm_addr = Some 8192\<rparr> 8192
     = (Some SR_ERR_SYS, \<lparr>shm_fd = 3, shm_size = 4096, shm_addr = None\<rparr>,
        [Munmap 8192 4096, Ftruncate 3 8192])
   \<and> sr_shm_remap \<lparr>fstat_size = None, ftruncate_ok = True, mmap_addr = None\<rparr>
       \<lparr>shm_fd = 3, shm_size = 4096, shm_addr = Some 8192\<rparr> 8192
     = (Some SR_ERR_NOMEM, \<lparr>shm_fd = 3, shm_size = 8192, shm_addr = None\<rparr>,
        [Munmap 8192 4096, Ftruncate 3 8192,
         Mmap 8192 [PROT_READ, PROT_WRITE] MAP_SHARED 3 0])"
  by (simp add: sr_shm_remap_def sr_file_get_size_def)

subsection \<open>Timed-out lock acquisition\<close>

lemma write_wait_stop: "ret \<noteq> 0 \<or> rd = 0 \<Longrightarrow> write_wait ws ret rd = Some (ret, rd)"
  by (subst write_wait.simps) auto

lemma write_wait_Nil: "ret = 0 \<Longrightarrow> rd \<noteq> 0 \<Longrightarrow> write_wait [] ret rd = None"
  by (subst write_wait.simps) auto

lemma write_wait_Cons:
  "ret = 0 \<Longrightarrow> rd \<noteq> 0 \<Longrightarrow> write_wait ((r, rd1) # ws) ret rd = write_wait ws r rd1"
  by (subst write_wait.simps) auto

lemma write_wait_readers:
  "write_wait ws ret rd = Some (ret', rd') \<Longrightarrow> rd' \<in> set (rd # map snd ws)"
proof (induction ws arbitrary: ret rd)
  case Nil
  then show ?case
    by (cases "ret \<noteq> 0 \<or> rd = 0") (auto simp: write_wait_stop write_wait_Nil)
next
  case (Cons w ws)
  obtain r rd1 where w: "w = (r, rd1)" by (cases w)
  show ?case
  proof (cases "ret \<noteq> 0 \<or> rd = 0")
    case True
    with Cons.prems show ?thesis by (simp add: write_wait_stop)
  next
    case False
    then have "write_wait ws r rd1 = Some (ret', rd')"
      using Cons.prems w by (simp add: write_wait_Cons)
    then have "rd' \<in> set (rd1 # map snd ws)" by (rule Cons.IH)
    then show ?thesis using w by auto
  qed
qed

lemma write_wait_returns:
  "\<exists>w \<in> set ws. fst w \<noteq> 0 \<or> snd w = 0 \<Longrightarrow> \<exists>res. write_wait ws ret rd = Some res"
proof (induction ws arbitrary: ret rd)
  case Nil
  then show ?case by simp
next
  case (Cons w ws)
  obtain r rd1 where w: "w = (r, rd1)" by (cases w)
  show ?case
  proof (cases "ret \<noteq> 0 \<or> rd = 0")
    case True
    then show ?thesis by (simp add: write_wait_stop)
  next
    case False
    then have step: "write_wait (w # ws) ret rd = write_wait ws r rd1"
      using w by (simp add: write_wait_Cons)
    show ?thesis
    proof (cases "r \<noteq> 0 \<or> rd1 = 0")
      case True
      then show ?thesis using step by (simp add: write_wait_stop)
    next
      case False
      then have "\<exists>w \<in> set ws. fst w \<noteq> 0 \<or> snd w = 0" using Cons.prems w by auto
      then show ?thesis using step Cons.IH by simp
    qed
  qed
qed

text \<open>
  C7. Whenever an acquisition, in read or in write mode, returns an error, the caller does
  not hold the mutex afterwards and has not written the reader counter: its value is the
  initial one or one that another thread left at a wake-up, and the lock is exactly as
  before when no other thread changed it meanwhile. A time-out of either pthread call
  (\<open>ETIMEDOUT\<close>) is returned as the error \<open>LockTimeout\<close>.
\<close>

theorem sr_rwlock_timeout_leaves_lock:
  assumes "sr_rwlock env timeout_ms wr rwlock = Returned (Some e, rwlock')"
    and "\<not> mutex_held rwlock"
  shows "\<not> mutex_held rwlock'
       \<and> readers rwlock' \<in> set (readers rwlock # map snd (cond_waits env))
       \<and> ((\<forall>w \<in> set (cond_waits env). snd w = readers rwlock) \<longrightarrow> rwlock' = rwlock)
       \<and> (timedlock_ret env = ETIMEDOUT \<longrightarrow> e = LockTimeout)
       \<and> (timedlock_ret env = 0
            \<and> (\<exists>rd. write_wait (cond_waits env) 0 (readers rwlock) = Some (ETIMEDOUT, rd))
            \<longrightarrow> e = LockTimeout)"
proof (cases "timedlock_ret env = 0")
  case False
  then have "rwlock' = rwlock" "e = SR_ERRINFO_LOCK (timedlock_ret env)"
    using assms(1) by (auto simp: sr_rwlock_def split: if_splits)
  then show ?thesis using assms(2) False by (auto simp: SR_ERRINFO_LOCK_def)
next
  case True
  then have wr: "wr" and pos: "0 < timeout_ms"
    using assms(1) by (auto simp: sr_rwlock_def Let_def split: if_splits)
  obtain ret rd where ww: "write_wait (cond_waits env) 0 (readers rwlock) = Some (ret, rd)"
    and ret: "ret \<noteq> 0"
    and res: "e = SR_ERRINFO_COND ret"
      "rwlock' = rwlock\<lparr>mutex_held := True, readers := rd, mutex_held := False\<rparr>"
    using assms(1) True wr pos
    by (auto simp: sr_rwlock_def Let_def split: if_splits option.splits)
  have mem: "rd \<in> set (readers rwlock # map snd (cond_waits env))"
    using write_wait_readers [OF ww] .
  have same: "(\<forall>w \<in> set (cond_waits env). snd w = readers rwlock) \<longrightarrow> rwlock' = rwlock"
    using mem res(2) assms(2) by auto
  have tmo: "timedlock_ret env = ETIMEDOUT \<longrightarrow> e = LockTimeout"
    using True by (simp add: ETIMEDOUT_def)
  have ctmo: "(\<exists>rd. write_wait (cond_waits env) 0 (readers rwlock) = Some (ETIMEDOUT, rd))
      \<longrightarrow> e = LockTimeout"
    using ww res(1) by (auto simp: SR_ERRINFO_COND_def)
  show ?thesis
    using res(2) mem same tmo ctmo by simp
qed

theorem sr_rwlock_timeout_leaves_lock_witness:
  "sr_rwlock \<lparr>timedlock_ret = 0, cond_waits = [(0, 2), (ETIMEDOUT, 2)]\<rparr> 1000 True
       \<lparr>mutex_held = False, readers = 2\<rparr>
     = Returned (Some LockTimeout, \<lparr>mutex_held = False, readers = 2\<rparr>)
   \<and> sr_rwlock \<lparr>timedlock_ret = ETIMEDOUT, cond_waits = []\<rparr> 1000 False
       \<lparr>mutex_held = False, readers = 2\<rparr>
     = Returned (Some LockTimeout, \<lparr>mutex_held = False, readers = 2\<rparr>)"
proof -
  let ?l = "\<lparr>mutex_held = False, readers = 2\<rparr>"
  let ?e1 = "\<lparr>timedlock_ret = 0, cond_waits = [(0, 2), (ETIMEDOUT, 2)]\<rparr>"
  let ?e2 = "\<lparr>timedlock_ret = ETIMEDOUT, cond_waits = []\<rparr>"
  have w: "write_wait [(0, 2), (ETIMEDOUT, 2)] 0 2 = Some (ETIMEDOUT, 2)"
    by (simp add: write_wait_Cons write_wait_stop ETIMEDOUT_def)
  have r1: "sr_rwlock ?e1 1000 True ?l = Returned (Some LockTimeout, ?l)"
    using w by (simp add: sr_rwlock_def SR_ERRINFO_COND_def ETIMEDOUT_def)
  have r2: "sr_rwlock ?e2 1000 False ?l = Returned (Some LockTimeout, ?l)"
    by (simp add: sr_rwlock_def SR_ERRINFO_LOCK_def ETIMEDOUT_def)
  have h: "\<not> mutex_held ?l" by simp
  have "\<not> mutex_held ?l \<and> readers ?l \<in> set (readers ?l # map snd (cond_waits ?e1))"
    using sr_rwlock_timeout_leaves_lock [OF r1 h] by simp
  moreover have "timedlock_ret ?e2 = ETIMEDOUT \<longrightarrow> LockTimeout = LockTimeout"
    using sr_rwlock_timeout_leaves_lock [OF r2 h] by simp
  ultimately show ?thesis using r1 r2 by simp
qed

subsection \<open>Order of delivery in the multi-phase commit\<close>

lemma notify_change_prefix:
  "\<exists>rest. ss = fst (notify_change accepts ss) @ rest"
  by (induction ss) (auto simp: Let_def split: prod.splits)

lemma notify_change_all_accept:
  "\<forall>s \<in> set ss. accepts s \<Longrightarrow> notify_change accepts ss = (ss, True)"
  by (induction ss) auto

lemma notify_change_failure:
  "snd (notify_change accepts ss) = False \<Longrightarrow>
   fst (notify_change accepts ss) \<noteq> []
   \<and> \<not> accepts (last (fst (notify_change accepts ss)))
   \<and> (\<forall>s \<in> set (butlast (fst (notify_change accepts ss))). accepts s)"
  by (induction ss) (auto simp: Let_def split: prod.splits if_splits)

lemma change_order_sorted: "sorted (map sub_priority (change_order subs))"
  by (simp add: change_order_def)

lemma notify_change_notified:
  "fst (notify_change accepts ss) = takeWhile accepts ss @ take 1 (dropWhile accepts ss)"
  by (induction ss) (auto simp: Let_def split: prod.splits)

lemma notify_change_ok: "snd (notify_change accepts ss) = list_all accepts ss"
  by (induction ss) (auto simp: Let_def split: prod.splits)

text \<open>
  C5. In a \<open>CHANGE\<close> phase the subscribers of a group are invoked in ascending order of
  priority, subscribers of equal priority in insertion order; the subscribers notified
  are an initial part of that order, ending with the first one that fails. \<open>ABORT\<close>
  is delivered only after a failure, to exactly the subscribers notified, in the reverse
  order (descending priority), so a subscriber that was not notified of the \<open>CHANGE\<close>
  receives no \<open>ABORT\<close>. Both lists are determined: the subscribers notified are those
  that precede the first failing one in the order, and that one; when some subscriber of
  the group fails, the \<open>CHANGE\<close> stops at a failing subscriber and the \<open>ABORT\<close> is
  delivered, to all of the subscribers notified, in the reverse order; when none fails all
  are notified and there is no \<open>ABORT\<close>.
\<close>

theorem commit_change_order:
  assumes "commit_change accepts subs = (chg, abt)"
  shows "sorted (map sub_priority (change_order subs))
       \<and> mset (change_order subs) = mset subs
       \<and> (\<forall>p. filter (\<lambda>s. sub_priority s = p) (change_order subs)
                = filter (\<lambda>s. sub_priority s = p) subs)
       \<and> (\<exists>rest. change_order subs = chg @ rest)
       \<and> sorted (map sub_priority chg)
       \<and> (abt = [] \<or> abt = rev chg)
       \<and> sorted (rev (map sub_priority abt))
       \<and> (\<forall>s. s \<notin> set chg \<longrightarrow> s \<notin> set abt)
       \<and> ((\<forall>s \<in> set subs. accepts s) \<longrightarrow> chg = change_order subs \<and> abt = [])
       \<and> (abt \<noteq> [] \<longrightarrow> \<not> accepts (last chg) \<and> (\<forall>s \<in> set (butlast chg). accepts s))
       \<and> chg = takeWhile accepts (change_order subs)
               @ take 1 (dropWhile accepts (change_order subs))
       \<and> abt = (if list_all accepts subs then [] else rev chg)
       \<and> ((\<exists>s \<in> set subs. \<not> accepts s) \<longrightarrow>
             chg \<noteq> [] \<and> \<not> accepts (last chg) \<and> (\<forall>s \<in> set (butlast chg). accepts s)
             \<and> abt = rev chg \<and> abt \<noteq> [])"
proof -
  obtain ok where n: "notify_change accepts (change_order subs) = (chg, ok)"
    and a: "abt = (if ok then [] else rev chg)"
    using assms by (auto simp: commit_change_def Let_def split: prod.splits)
  obtain rest where pre: "change_order subs = chg @ rest"
    using notify_change_prefix [of "change_order subs" accepts] n by auto
  have s1: "sorted (map sub_priority (change_order subs))" by (rule change_order_sorted)
  have s2: "sorted (map sub_priority chg)"
    using s1 pre by (simp add: sorted_append)
  have s3: "sorted (rev (map sub_priority abt))"
    using a s2 by (simp add: rev_map)
  have st: "\<forall>p. filter (\<lambda>s. sub_priority s = p) (change_order subs)
                = filter (\<lambda>s. sub_priority s = p) subs"
    by (simp add: change_order_def sort_key_stable)
  have al: "(\<forall>s \<in> set subs. accepts s) \<longrightarrow> chg = change_order subs \<and> abt = []"
  proof
    assume "\<forall>s \<in> set subs. accepts s"
    then have "\<forall>s \<in> set (change_order subs). accepts s" by (simp add: change_order_def)
    then have "notify_change accepts (change_order subs) = (change_order subs, True)"
      by (rule notify_change_all_accept)
    with n a show "chg = change_order subs \<and> abt = []" by simp
  qed
  have fl: "abt \<noteq> [] \<longrightarrow> \<not> accepts (last chg) \<and> (\<forall>s \<in> set (butlast chg). accepts s)"
  proof
    assume "abt \<noteq> []"
    then have "snd (notify_change accepts (change_order subs)) = False"
      using a n by (auto split: if_splits)
    from notify_change_failure [OF this] n
    show "\<not> accepts (last chg) \<and> (\<forall>s \<in> set (butlast chg). accepts s)" by simp
  qed
  have ms: "mset (change_order subs) = mset subs" by (simp add: change_order_def)
  have tw: "chg = takeWhile accepts (change_order subs)
               @ take 1 (dropWhile accepts (change_order subs))"
    using notify_change_notified [of accepts "change_order subs"] n by simp
  have ok: "ok = list_all accepts subs"
    using notify_change_ok [of accepts "change_order subs"] n
    by (simp add: change_order_def list_all_iff)
  have ab: "abt = (if list_all accepts subs then [] else rev chg)"
    using a ok by simp
  have fa: "(\<exists>s \<in> set subs. \<not> accepts s) \<longrightarrow>
             chg \<noteq> [] \<and> \<not> accepts (last chg) \<and> (\<forall>s \<in> set (butlast chg). accepts s)
             \<and> abt = rev chg \<and> abt \<noteq> []"
  proof
    assume "\<exists>s \<in> set subs. \<not> accepts s"
    then have nok: "\<not> ok" using ok by (auto simp: list_all_iff)
    then have "snd (notify_change accepts (change_order subs)) = False"
      using n by simp
    from notify_change_failure [OF this] n
    have "chg \<noteq> [] \<and> \<not> accepts (last chg) \<and> (\<forall>s \<in> set (butlast chg). accepts s)"
      by simp
    then show "chg \<noteq> [] \<and> \<not> accepts (last chg) \<and> (\<forall>s \<in> set (butlast chg). accepts s)
             \<and> abt = rev chg \<and> abt \<noteq> []"
      using a nok by simp
  qed
  have base: "sorted (map sub_priority (change_order subs))
       \<and> mset (change_order subs) = mset subs
       \<and> (\<forall>p. filter (\<lambda>s. sub_priority s = p) (change_order subs)
                = filter (\<lambda>s. sub_priority s = p) subs)
       \<and> (\<exists>rest. change_order subs = chg @ rest)
       \<and> sorted (map sub_priority chg)
       \<and> (abt = [] \<or> abt = rev chg)
       \<and> sorted (rev (map sub_priority abt))
       \<and> (\<forall>s. s \<notin> set chg \<longrightarrow> s \<notin> set abt)"
    using s1 ms st pre s2 s3 a by auto
  show ?thesis
    using base al fl tw ab fa by (intro conjI) blast+
qed

text \<open>
  The example of the specification: priorities 10, 5 and 20 in insertion order, the
  subscriber of priority 10 failing.
\<close>

theorem commit_change_order_witness:
  "commit_change (\<lambda>s. sub_priority s \<noteq> 10)
       [\<lparr>sub_name = ''a'', sub_priority = 10\<rparr>, \<lparr>sub_name = ''b'', sub_priority = 5\<rparr>,
        \<lparr>sub_name = ''c'', sub_priority = 20\<rparr>]
     = ([\<lparr>sub_name = ''b'', sub_priority = 5\<rparr>, \<lparr>sub_name = ''a'', sub_priority = 10\<rparr>],
        [\<lparr>sub_name = ''a'', sub_priority = 10\<rparr>, \<lparr>sub_name = ''b'', sub_priority = 5\<rparr>])
   \<and> \<lparr>sub_name = ''c'', sub_priority = 20\<rparr>
       \<notin> set [\<lparr>sub_name = ''b'', sub_priority = 5\<rparr>, \<lparr>sub_name = ''a'', sub_priority = 10\<rparr>]
   \<and> \<lparr>sub_name = ''c'', sub_priority = 20\<rparr>
       \<notin> set [\<lparr>sub_name = ''a'', sub_priority = 10\<rparr>, \<lparr>sub_name = ''b'', sub_priority = 5\<rparr>]
   \<and> commit_change (\<lambda>s. True)
       [\<lparr>sub_name = ''a'', sub_priority = 10\<rparr>, \<lparr>sub_name = ''b'', sub_priority = 5\<rparr>,
        \<lparr>sub_name = ''c'', sub_priority = 20\<rparr>]
     = ([\<lparr>sub_name = ''b'', sub_priority = 5\<rparr>, \<lparr>sub_name = ''a'', sub_priority = 10\<rparr>,
         \<lparr>sub_name = ''c'', sub_priority = 20\<rparr>], [])
   \<and> change_order
       [\<lparr>sub_name = ''a'', sub_priority = 10\<rparr>, \<lparr>sub_name = ''b'', sub_priority = 5\<rparr>,
        \<lparr>sub_name = ''c'', sub_priority = 20\<rparr>]
     = [\<lparr>sub_name = ''b'', sub_priority = 5\<rparr>, \<lparr>sub_name = ''a'', sub_priority = 10\<rparr>,
        \<lparr>sub_name = ''c'', sub_priority = 20\<rparr>]"
proof -
  let ?a = "\<lparr>sub_name = ''a'', sub_priority = 10\<rparr>"
  let ?b = "\<lparr>sub_name = ''b'', sub_priority = 5\<rparr>"
  let ?c = "\<lparr>sub_name = ''c'', sub_priority = 20\<rparr>"
  have e1: "commit_change (\<lambda>s. sub_priority s \<noteq> 10) [?a, ?b, ?c] = ([?b, ?a], [?a, ?b])"
    by (simp add: commit_change_def change_order_def)
  have e2: "commit_change (\<lambda>s. True) [?a, ?b, ?c] = ([?b, ?a, ?c], [])"
    by (simp add: commit_change_def change_order_def)
  have n1: "?c \<notin> set [?b, ?a]" by simp
  have "\<forall>s. s \<notin> set [?b, ?a] \<longrightarrow> s \<notin> set [?a, ?b]"
    using commit_change_order [OF e1] by blast
  then have n2: "?c \<notin> set [?a, ?b]" using n1 by blast
  have "(\<forall>s \<in> set [?a, ?b, ?c]. (\<lambda>s. True) s) \<longrightarrow> [?b, ?a, ?c] = change_order [?a, ?b, ?c]"
    using commit_change_order [OF e2] by blast
  then have o: "change_order [?a, ?b, ?c] = [?b, ?a, ?c]" by simp
  show ?thesis using e1 e2 n1 n2 o by (intro conjI)
qed

subsection \<open>Adding and deleting subscriptions\<close>

lemmas conf_add_defs =
  sr_sub_conf_add_def conf_add_entry_def conf_add_error_unlock_def sr_mlock_def sr_munlock_def
  conf_find.simps arr_of_def realloc_arr_def free_ptr_def sr_shm_clear_def
  zero_conf_def zero_confsub_def zero_shm_def empty_subs_def env_ok_def subs_m1_def conf_m1_def
  Let_def

lemmas conf_del_defs =
  sr_sub_conf_del_def conf_del_from.simps conf_del_match.simps conf_del_remove_def
  sr_mlock_def sr_munlock_def free_ptr_def sr_shm_clear_def empty_subs_def subs_m1_def conf_m1_def
  Let_def

lemmas rpc_defs =
  sr_sub_rpc_add_def sr_sub_rpc_del_def rpc_del_from.simps sr_mlock_def sr_munlock_def
  arr_of_def realloc_arr_def free_ptr_def sr_shm_clear_def zero_rpc_def zero_shm_def
  empty_subs_def env_ok_def Let_def

text \<open>The handle \<open>subs_m1\<close> is what a first, successful add leaves.\<close>

lemma sr_sub_conf_add_first:
  "sr_sub_conf_add env_ok ''m1'' None SR_DS_RUNNING 1 2 0 0 empty_subs = Returned (None, subs_m1)"
  by (simp add: conf_add_defs)

text \<open>
  C1. The claim is that an add which fails leaves the registry as it was. On the code it
  does not. Adding a second entry to the existing group of \<open>m1\<close>, with the
  reallocation of the entry list failing, returns the allocation error and leaves the
  group listed with its segment unmapped and closed, because the cleanup clears the
  segment of whatever group \<^verbatim>\<open>conf_sub\<close> points to. Creating a group, with the copy of the
  path failing, returns the error with the new, empty group counted in the registry.
  Creating a group, with the segment failing to open, frees the group array the registry
  still points to and then clears a segment inside it.
\<close>

theorem sr_sub_conf_add_failure_alters_registry:
  "sr_sub_conf_add (env_ok\<lparr>realloc_subs_ok := False\<rparr>) ''m1'' (Some ''/m1:a'') SR_DS_RUNNING
       1 2 5 0 subs_m1
     = Returned (Some SR_ERR_NOMEM,
         subs_m1\<lparr>conf_subs := Ptr [conf_m1\<lparr>c_sub_shm :=
            \<lparr>shm_fd = - 1, shm_size = 0, shm_addr = None\<rparr>\<rparr>]\<rparr>)
   \<and> subs_m1\<lparr>conf_subs := Ptr [conf_m1\<lparr>c_sub_shm :=
            \<lparr>shm_fd = - 1, shm_size = 0, shm_addr = None\<rparr>\<rparr>]\<rparr> \<noteq> subs_m1
   \<and> sr_sub_conf_add (env_ok\<lparr>strdup_xpath_ok := False\<rparr>) ''m1'' (Some ''/m1:a'') SR_DS_RUNNING
       1 2 5 0 empty_subs
     = Returned (Some SR_ERR_NOMEM,
         empty_subs\<lparr>subs_lock := True,
           conf_subs := Ptr [\<lparr>c_module_name = Ptr ''m1'', c_ds = SR_DS_RUNNING,
              c_subs = Ptr [zero_confsub], c_sub_count = 0,
              c_sub_shm = \<lparr>shm_fd = 5, shm_size = 4096, shm_addr = Some 65536\<rparr>\<rparr>],
           conf_sub_count := 1\<rparr>)
   \<and> sr_sub_conf_add (env_ok\<lparr>open_map := (Some (SR_ERR_EXTERNAL 1), zero_shm)\<rparr>) ''m2''
       (Some ''/m2:a'') SR_DS_RUNNING 1 2 5 0 subs_m1
     = Undefined ''use after free: sr_shm_clear on a group of the freed array''"
proof -
  have a: "sr_sub_conf_add (env_ok\<lparr>realloc_subs_ok := False\<rparr>) ''m1'' (Some ''/m1:a'')
       SR_DS_RUNNING 1 2 5 0 subs_m1
     = Returned (Some SR_ERR_NOMEM,
         subs_m1\<lparr>conf_subs := Ptr [conf_m1\<lparr>c_sub_shm :=
            \<lparr>shm_fd = - 1, shm_size = 0, shm_addr = None\<rparr>\<rparr>]\<rparr>)"
    by (simp add: conf_add_defs)
  have b: "subs_m1\<lparr>conf_subs := Ptr [conf_m1\<lparr>c_sub_shm :=
            \<lparr>shm_fd = - 1, shm_size = 0, shm_addr = None\<rparr>\<rparr>]\<rparr> \<noteq> subs_m1"
    by (simp add: subs_m1_def conf_m1_def empty_subs_def)
  have c: "sr_sub_conf_add (env_ok\<lparr>strdup_xpath_ok := False\<rparr>) ''m1'' (Some ''/m1:a'')
       SR_DS_RUNNING 1 2 5 0 empty_subs
     = Returned (Some SR_ERR_NOMEM,
         empty_subs\<lparr>subs_lock := True,
           conf_subs := Ptr [\<lparr>c_module_name = Ptr ''m1'', c_ds = SR_DS_RUNNING,
              c_subs = Ptr [zero_confsub], c_sub_count = 0,
              c_sub_shm = \<lparr>shm_fd = 5, shm_size = 4096, shm_addr = Some 65536\<rparr>\<rparr>],
           conf_sub_count := 1\<rparr>)"
    by (simp add: conf_add_defs)
  have d: "sr_sub_conf_add (env_ok\<lparr>open_map := (Some (SR_ERR_EXTERNAL 1), zero_shm)\<rparr>) ''m2''
       (Some ''/m2:a'') SR_DS_RUNNING 1 2 5 0 subs_m1
     = Undefined ''use after free: sr_shm_clear on a group of the freed array''"
    by (simp add: conf_add_defs)
  show ?thesis using a b c d by (intro conjI)
qed

text \<open>
  C10. The claim is that every add and delete releases the handle's lock before it
  returns. On the code, \<^verbatim>\<open>sr_sub_conf_add\<close> with a path does not when the copy of the path
  cannot be allocated: it returns the allocation error with the lock still held.
\<close>

theorem sr_sub_conf_add_returns_locked:
  "sr_sub_conf_add (env_ok\<lparr>strdup_xpath_ok := False\<rparr>) ''m1'' (Some ''/m1:a'') SR_DS_RUNNING
       1 2 5 0 subs_m1
     = Returned (Some SR_ERR_NOMEM,
         subs_m1\<lparr>subs_lock := True,
           conf_subs := Ptr [conf_m1\<lparr>c_subs := Ptr (arr_of (c_subs conf_m1) @ [zero_confsub])\<rparr>]\<rparr>)
   \<and> subs_lock (subs_m1\<lparr>subs_lock := True,
           conf_subs := Ptr [conf_m1\<lparr>c_subs := Ptr (arr_of (c_subs conf_m1) @ [zero_confsub])\<rparr>]\<rparr>)
   \<and> \<not> subs_lock subs_m1"
  by (simp add: conf_add_defs)

text \<open>
  C3. The claim is that deleting a whole-module config subscription (path \<^verbatim>\<open>NULL\<close>) that
  was added with path \<^verbatim>\<open>NULL\<close> succeeds without reaching an undefined branch of the match.
  On the code the match calls \<^verbatim>\<open>strcmp(NULL, NULL)\<close> at that entry.
\<close>

theorem sr_sub_conf_del_null_path:
  "sr_sub_conf_add env_ok ''m1'' None SR_DS_RUNNING 1 2 0 0 empty_subs = Returned (None, subs_m1)
   \<and> sr_sub_conf_del 0 ''m1'' None SR_DS_RUNNING 1 2 0 0 subs_m1 = Undefined ''strcmp(NULL, NULL)''"
proof -
  have a: "sr_sub_conf_add env_ok ''m1'' None SR_DS_RUNNING 1 2 0 0 empty_subs
      = Returned (None, subs_m1)"
    by (simp add: conf_add_defs)
  have b: "sr_sub_conf_del 0 ''m1'' None SR_DS_RUNNING 1 2 0 0 subs_m1
      = Undefined ''strcmp(NULL, NULL)''"
    by (simp add: conf_del_defs)
  show ?thesis using a b by (rule conjI)
qed

text \<open>
  C2. The claim is that a delete replaces the entry found with the last entry of its
  list and leaves every other entry intact, for the RPC kind in particular. On the code,
  with the two RPC subscriptions \<open>/m1:a\<close> and \<open>/m1:b\<close> that two successful adds leave,
  deleting the first one does not copy the last entry over it: the copy is aimed at the
  local pointer variable. Deleting the last one needs no copy and succeeds.
\<close>

theorem sr_sub_rpc_del_not_last:
  "sr_sub_rpc_add env_ok ''m1'' ''/m1:a'' 1 0 2 empty_subs = Returned (None, subs_rpc1)
   \<and> sr_sub_rpc_add env_ok ''m1'' ''/m1:b'' 1 0 2 subs_rpc1 = Returned (None, subs_rpc2)
   \<and> sr_sub_rpc_del 0 ''/m1:a'' subs_rpc2
       = Undefined ''memcpy of a whole entry into the pointer variable rpc_sub''
   \<and> sr_sub_rpc_del 0 ''/m1:b'' subs_rpc2
       = Returned (empty_subs\<lparr>rpc_subs := Ptr [rpc_a, rpc_b\<lparr>r_xpath := Dangling,
              r_sub_shm := \<lparr>shm_fd = - 1, shm_size = 0, shm_addr = None\<rparr>\<rparr>],
            rpc_sub_count := 1\<rparr>)"
proof -
  have a: "sr_sub_rpc_add env_ok ''m1'' ''/m1:a'' 1 0 2 empty_subs = Returned (None, subs_rpc1)"
    by (simp add: rpc_defs subs_rpc1_def rpc_a_def)
  have b: "sr_sub_rpc_add env_ok ''m1'' ''/m1:b'' 1 0 2 subs_rpc1 = Returned (None, subs_rpc2)"
    by (simp add: rpc_defs subs_rpc1_def subs_rpc2_def rpc_a_def rpc_b_def)
  have c: "sr_sub_rpc_del 0 ''/m1:a'' subs_rpc2
       = Undefined ''memcpy of a whole entry into the pointer variable rpc_sub''"
    by (simp add: rpc_defs subs_rpc2_def rpc_a_def rpc_b_def)
  have d: "sr_sub_rpc_del 0 ''/m1:b'' subs_rpc2
       = Returned (empty_subs\<lparr>rpc_subs := Ptr [rpc_a, rpc_b\<lparr>r_xpath := Dangling,
              r_sub_shm := \<lparr>shm_fd = - 1, shm_size = 0, shm_addr = None\<rparr>\<rparr>],
            rpc_sub_count := 1\<rparr>)"
    by (simp add: rpc_defs subs_rpc2_def rpc_a_def rpc_b_def)
  show ?thesis using a b c d by (intro conjI)
qed

subsection \<open>Tearing the registry down\<close>

lemmas del_all_defs =
  sr_subs_del_all_def for_loop.simps conf_del_group_def conf_unsub_entries_def conf_unsub_entry_def
  unlink_if_last_def dp_del_group_def dp_unsub_entry_def rpc_del_entry_def notif_del_group_def
  notif_unsub_entry_def sr_get_first_ns_def isalpha_def isalnum_def sr_path_sub_shm_def
  sr_ds2str_def arr_of_def free_ptr_def sr_shm_clear_def env_del_ok_def Let_def

lemma for_loop_step:
  "i < cnt \<Longrightarrow> for_loop body cnt i s =
     (case body i s of Next s' \<Rightarrow> for_loop body cnt (Suc i) s' | Stop err s' \<Rightarrow> Stop err s'
      | Undef m \<Rightarrow> Undef m)"
  by (subst for_loop.simps) simp

lemma for_loop_stop: "\<not> i < cnt \<Longrightarrow> for_loop body cnt i s = Next s"
  by (subst for_loop.simps) simp

lemma for_loop_Next:
  assumes step: "\<And>i s. i0 \<le> i \<Longrightarrow> i < cnt \<Longrightarrow> P i s \<Longrightarrow> \<exists>s'. body i s = Next s' \<and> P (Suc i) s'"
    and init: "P i0 s0" and le: "i0 \<le> cnt"
  shows "\<exists>s'. for_loop body cnt i0 s0 = Next s' \<and> P cnt s'"
  using init le step
proof (induction "cnt - i0" arbitrary: i0 s0)
  case 0
  then have "i0 = cnt" by simp
  with 0 show ?case by (simp add: for_loop_stop)
next
  case (Suc n)
  then have lt: "i0 < cnt" by simp
  obtain s1 where b: "body i0 s0 = Next s1" and p1: "P (Suc i0) s1"
    using Suc.prems(3) [of i0 s0] Suc.prems(1) lt by auto
  have n: "n = cnt - Suc i0" using Suc.hyps(2) by simp
  have "\<exists>s'. for_loop body cnt (Suc i0) s1 = Next s' \<and> P cnt s'"
  proof (rule Suc.hyps(1) [OF n p1])
    show "Suc i0 \<le> cnt" using lt by simp
  next
    fix i s assume "Suc i0 \<le> i" "i < cnt" "P i s"
    then show "\<exists>s'. body i s = Next s' \<and> P (Suc i) s'"
      using Suc.prems(3) [of i s] by simp
  qed
  then show ?case using lt b by (simp add: for_loop_step)
qed


text \<open>A loop over a positive number of groups reads the array, so it cannot pass an empty one.\<close>

lemma conf_loop_reads:
  "for_loop (conf_del_group env ev) cnt 0 ([], lr, tr) = Next x \<Longrightarrow> cnt = 0"
  by (cases "0 < cnt") (simp_all add: for_loop_step conf_del_group_def)

lemma dp_loop_reads:
  "for_loop (dp_del_group env ev) cnt 0 ([], lr, tr) = Next x \<Longrightarrow> cnt = 0"
  by (cases "0 < cnt") (simp_all add: for_loop_step dp_del_group_def)

lemma rpc_loop_reads:
  "for_loop (rpc_del_entry env ev) cnt 0 ([], lr, tr) = Next x \<Longrightarrow> cnt = 0"
  by (cases "0 < cnt") (simp_all add: for_loop_step rpc_del_entry_def)

lemma notif_loop_reads:
  "for_loop (notif_del_group env ev) cnt 0 ([], lr, tr) = Next x \<Longrightarrow> cnt = 0"
  by (cases "0 < cnt") (simp_all add: for_loop_step notif_del_group_def)

lemma free_ptr_cases: "free_ptr p = Null \<or> free_ptr p = Dangling"
  by (cases p) (simp_all add: free_ptr_def)

lemma sr_subs_del_all_success:
  assumes "sr_subs_del_all env subs = Returned (None, subs', tr)"
  shows "subs' = subs\<lparr>conf_subs := free_ptr (conf_subs subs), dp_subs := free_ptr (dp_subs subs),
                     rpc_subs := free_ptr (rpc_subs subs),
                     notif_subs := free_ptr (notif_subs subs)\<rparr>"
  using assms
  by (auto simp: sr_subs_del_all_def Let_def split: step.splits prod.splits if_splits)

lemma sr_subs_del_all_live:
  assumes "sr_subs_del_all env subs = Returned (None, subs', tr)"
  shows "(conf_sub_count subs \<noteq> 0 \<longrightarrow> (\<exists>a. conf_subs subs = Ptr a))
       \<and> (dp_sub_count subs \<noteq> 0 \<longrightarrow> (\<exists>a. dp_subs subs = Ptr a))
       \<and> (rpc_sub_count subs \<noteq> 0 \<longrightarrow> (\<exists>a. rpc_subs subs = Ptr a))
       \<and> (notif_sub_count subs \<noteq> 0 \<longrightarrow> (\<exists>a. notif_subs subs = Ptr a))"
proof -
  have c: "conf_sub_count subs \<noteq> 0 \<longrightarrow> (\<exists>a. conf_subs subs = Ptr a)"
    using assms
    by (cases "conf_subs subs")
       (auto simp: sr_subs_del_all_def Let_def arr_of_def unat_eq_0
             split: step.splits prod.splits if_splits dest: conf_loop_reads)
  have d: "dp_sub_count subs \<noteq> 0 \<longrightarrow> (\<exists>a. dp_subs subs = Ptr a)"
    using assms
    by (cases "dp_subs subs")
       (auto simp: sr_subs_del_all_def Let_def arr_of_def unat_eq_0
             split: step.splits prod.splits if_splits dest: dp_loop_reads)
  have r: "rpc_sub_count subs \<noteq> 0 \<longrightarrow> (\<exists>a. rpc_subs subs = Ptr a)"
    using assms
    by (cases "rpc_subs subs")
       (auto simp: sr_subs_del_all_def Let_def arr_of_def unat_eq_0
             split: step.splits prod.splits if_splits dest: rpc_loop_reads)
  have n: "notif_sub_count subs \<noteq> 0 \<longrightarrow> (\<exists>a. notif_subs subs = Ptr a)"
    using assms
    by (cases "notif_subs subs")
       (auto simp: sr_subs_del_all_def Let_def arr_of_def unat_eq_0
             split: step.splits prod.splits if_splits dest: notif_loop_reads)
  show ?thesis using c d r n by (intro conjI)
qed

lemma list_all_take_nth:
  "n \<le> length xs \<Longrightarrow> list_all P (take n xs) \<Longrightarrow> k < n \<Longrightarrow> P (xs ! k)"
  by (simp add: list_all_length)

lemma conf_unsub_entries_ok:
  assumes env: "env_cooperates env" and g: "wf_conf_group g"
  shows "\<exists>p l tr'. conf_unsub_entries env ev i g lr tr = Next (p, l, tr') \<and> p \<noteq> Dangling"
proof (cases "unat (c_sub_count g) = 0")
  case True
  have "c_subs g \<noteq> Dangling"
    using g by (auto simp: wf_conf_group_def split: ptr.splits)
  then show ?thesis using True by (simp add: conf_unsub_entries_def)
next
  case False
  then obtain name ents where nm: "c_module_name g = Ptr name" and es: "c_subs g = Ptr ents"
    and len: "unat (c_sub_count g) \<le> length ents"
    and xs: "list_all (\<lambda>e. cs_xpath e \<noteq> Dangling) (take (unat (c_sub_count g)) ents)"
    using g by (auto simp: wf_conf_group_def split: ptr.splits)
  let ?n = "unat (c_sub_count g)"
  let ?P = "\<lambda>j (s :: modsub_confsub_s list del_state).
     case s of (es, l, t) \<Rightarrow>
       ?n \<le> length es \<and> (\<forall>k. j \<le> k \<and> k < ?n \<longrightarrow> cs_xpath (es ! k) \<noteq> Dangling)"
  have init: "?P 0 (ents, lr, tr)"
    using len xs by (auto dest: list_all_take_nth)
  have step: "\<And>j s. 0 \<le> j \<Longrightarrow> j < ?n \<Longrightarrow> ?P j s \<Longrightarrow>
      \<exists>s'. conf_unsub_entry env ev i name (c_ds g) j s = Next s' \<and> ?P (Suc j) s'"
  proof -
    fix j and s :: "modsub_confsub_s list del_state"
    assume j: "j < ?n" and p: "?P j s"
    obtain es l t where s: "s = (es, l, t)" by (cases s)
    have a: "j < length es" "cs_xpath (es ! j) \<noteq> Dangling" using p j s by auto
    have ok: "fst (shmmod_conf env i j) = None" using env by (simp add: env_cooperates_def)
    obtain v where sm: "shmmod_conf env i j = (None, v)" using ok by (cases "shmmod_conf env i j") auto
    show "\<exists>s'. conf_unsub_entry env ev i name (c_ds g) j s = Next s' \<and> ?P (Suc j) s'"
      using a p s sm by (auto simp: conf_unsub_entry_def Let_def nth_list_update)
  qed
  obtain s' where r: "for_loop (conf_unsub_entry env ev i name (c_ds g)) ?n 0 (ents, lr, tr) = Next s'"
    using for_loop_Next [where P = ?P and body = "conf_unsub_entry env ev i name (c_ds g)"
        and ?i0.0 = 0 and cnt = ?n and ?s0.0 = "(ents, lr, tr)", OF step init] by auto
  obtain es l t where s': "s' = (es, l, t)" by (cases s')
  show ?thesis
    using r s' nm es False by (simp add: conf_unsub_entries_def)
qed

lemma unlink_if_last_ok:
  "\<exists>tr'. unlink_if_last dir True (Ptr name) suffix lr tr = Next tr'"
  by (simp add: unlink_if_last_def sr_path_sub_shm_def)

lemma conf_del_group_ok:
  assumes env: "env_cooperates env" and g: "wf_conf_group (arr ! i)" and i: "i < length arr"
  shows "\<exists>g' l' tr'. conf_del_group env ev i (arr, lr, tr) = Next (arr[i := g'], l', tr')"
proof -
  obtain p l tr1 where e: "conf_unsub_entries env ev i (arr ! i) lr tr = Next (p, l, tr1)"
    and pd: "p \<noteq> Dangling"
    using conf_unsub_entries_ok [OF env g] by blast
  obtain name where nm: "c_module_name (arr ! i) = Ptr name"
    using g by (auto simp: wf_conf_group_def split: ptr.splits)
  have pa: "asprintf_conf env i" using env by (simp add: env_cooperates_def)
  obtain tr2 where u: "unlink_if_last (shm_dir env) (asprintf_conf env i) (c_module_name (arr ! i))
      (sr_ds2str (c_ds (arr ! i))) l tr1 = Next tr2"
    using nm pa unlink_if_last_ok [of "shm_dir env" name "sr_ds2str (c_ds (arr ! i))" l tr1]
    by auto
  show ?thesis
    using i e u nm pd by (simp add: conf_del_group_def Let_def) blast
qed

lemma conf_loop_ok:
  assumes env: "env_cooperates env" and w: "wf_array wf_conf_group p cnt"
  shows "\<exists>s'. for_loop (conf_del_group env ev) (unat cnt) 0 (arr_of p, lr, tr) = Next s'"
proof (cases "unat cnt = 0")
  case True
  then show ?thesis by (simp add: for_loop_stop)
next
  case False
  then obtain arr where p: "p = Ptr arr" and len: "unat cnt \<le> length arr"
    and all: "list_all wf_conf_group (take (unat cnt) arr)"
    using w by (auto simp: wf_array_def unat_eq_0 split: ptr.splits)
  let ?n = "unat cnt"
  let ?P = "\<lambda>i (s :: modsub_conf_s list del_state).
     case s of (a, l, t) \<Rightarrow>
       ?n \<le> length a \<and> (\<forall>k. i \<le> k \<and> k < ?n \<longrightarrow> wf_conf_group (a ! k))"
  have init: "?P 0 (arr, lr, tr)"
    using len all by (auto dest: list_all_take_nth)
  have step: "\<And>i s. 0 \<le> i \<Longrightarrow> i < ?n \<Longrightarrow> ?P i s \<Longrightarrow>
      \<exists>s'. conf_del_group env ev i s = Next s' \<and> ?P (Suc i) s'"
  proof -
    fix i and s :: "modsub_conf_s list del_state"
    assume i: "i < ?n" and ps: "?P i s"
    obtain a l t where s: "s = (a, l, t)" by (cases s)
    have il: "i < length a" and wg: "wf_conf_group (a ! i)" using ps i s by auto
    obtain g' l' t' where r: "conf_del_group env ev i (a, l, t) = Next (a[i := g'], l', t')"
      using conf_del_group_ok [OF env wg il] by blast
    show "\<exists>s'. conf_del_group env ev i s = Next s' \<and> ?P (Suc i) s'"
      using r ps s by (auto simp: nth_list_update)
  qed
  obtain s' where r: "for_loop (conf_del_group env ev) ?n 0 (arr, lr, tr) = Next s'"
    using for_loop_Next [where P = ?P and body = "conf_del_group env ev"
        and ?i0.0 = 0 and cnt = ?n and ?s0.0 = "(arr, lr, tr)", OF step init] by auto
  show ?thesis unfolding p using r by (cases s') (simp add: arr_of_def)
qed


lemma sr_path_sub_shm_ok: "\<exists>path. sr_path_sub_shm dir True name sfx d ab = Inr path"
  by (simp add: sr_path_sub_shm_def)

lemma dp_del_group_ok:
  assumes env: "env_cooperates env" and g: "wf_dp_group (arr ! i)" and i: "i < length arr"
  shows "\<exists>g' tr'. dp_del_group env ev i (arr, lr, tr) = Next (arr[i := g'], lr, tr')"
proof (cases "unat (d_sub_count (arr ! i)) = 0")
  case True
  have "d_subs (arr ! i) \<noteq> Dangling" "d_module_name (arr ! i) \<noteq> Dangling"
    using g by (auto simp: wf_dp_group_def split: ptr.splits)
  then show ?thesis
    using True i by (simp add: dp_del_group_def Let_def) blast
next
  case False
  let ?g = "arr ! i"
  obtain name ents where nm: "d_module_name ?g = Ptr name" and es: "d_subs ?g = Ptr ents"
    and len: "unat (d_sub_count ?g) \<le> length ents"
    and xs: "list_all (\<lambda>e. case ds_xpath e of Ptr p \<Rightarrow> True | _ \<Rightarrow> False)
               (take (unat (d_sub_count ?g)) ents)"
    using g False by (auto simp: wf_dp_group_def split: ptr.splits)
  let ?n = "unat (d_sub_count ?g)"
  let ?P = "\<lambda>j (s :: modsub_dpsub_s list del_state).
     case s of (es, l, t) \<Rightarrow>
       ?n \<le> length es \<and> (\<forall>k. j \<le> k \<and> k < ?n \<longrightarrow> (\<exists>p. ds_xpath (es ! k) = Ptr p)) \<and> l = lr"
  have init: "?P 0 (ents, lr, tr)"
  proof -
    have "\<exists>p. ds_xpath (ents ! k) = Ptr p" if "k < ?n" for k
      using list_all_take_nth [OF len xs that] by (cases "ds_xpath (ents ! k)") simp_all
    then show ?thesis using len by simp
  qed
  have step: "\<And>j s. 0 \<le> j \<Longrightarrow> j < ?n \<Longrightarrow> ?P j s \<Longrightarrow>
      \<exists>s'. dp_unsub_entry env ev i name j s = Next s' \<and> ?P (Suc j) s'"
  proof -
    fix j and s :: "modsub_dpsub_s list del_state"
    assume j: "j < ?n" and p: "?P j s"
    obtain es l t where s: "s = (es, l, t)" by (cases s)
    obtain xp where a: "j < length es" "ds_xpath (es ! j) = Ptr xp" using p j s by auto
    have ok: "shmmod_dp env i j = None" "asprintf_dp env i j"
      using env by (simp_all add: env_cooperates_def)
    obtain path where pth: "sr_path_sub_shm (shm_dir env) (asprintf_dp env i j) name ''state''
        (ucast (sr_str_hash (plain_char_signed env) xp)) True = Inr path"
      using sr_path_sub_shm_ok [of "shm_dir env" name "''state''"] ok(2) by auto
    show "\<exists>s'. dp_unsub_entry env ev i name j s = Next s' \<and> ?P (Suc j) s'"
      using a p s ok(1) pth by (auto simp: dp_unsub_entry_def Let_def nth_list_update)
  qed
  obtain s' where r: "for_loop (dp_unsub_entry env ev i name) ?n 0 (ents, lr, tr) = Next s'"
    and p': "?P ?n s'"
    using for_loop_Next [where P = ?P and body = "dp_unsub_entry env ev i name"
        and ?i0.0 = 0 and cnt = ?n and ?s0.0 = "(ents, lr, tr)", OF step init] by auto
  obtain es l t where s': "s' = (es, l, t)" by (cases s')
  have "l = lr" using p' s' by simp
  then show ?thesis
    using r s' nm es False i by (simp add: dp_del_group_def Let_def free_ptr_def) blast
qed

lemma dp_loop_ok:
  assumes env: "env_cooperates env" and w: "wf_array wf_dp_group p cnt"
  shows "\<exists>a t. for_loop (dp_del_group env ev) (unat cnt) 0 (arr_of p, lr, tr) = Next (a, lr, t)"
proof (cases "unat cnt = 0")
  case True
  then show ?thesis by (simp add: for_loop_stop)
next
  case False
  then obtain arr where p: "p = Ptr arr" and len: "unat cnt \<le> length arr"
    and all: "list_all wf_dp_group (take (unat cnt) arr)"
    using w by (auto simp: wf_array_def unat_eq_0 split: ptr.splits)
  let ?n = "unat cnt"
  let ?P = "\<lambda>i (s :: modsub_dp_s list del_state).
     case s of (a, l, t) \<Rightarrow>
       ?n \<le> length a \<and> (\<forall>k. i \<le> k \<and> k < ?n \<longrightarrow> wf_dp_group (a ! k)) \<and> l = lr"
  have init: "?P 0 (arr, lr, tr)"
    using len all by (auto dest: list_all_take_nth)
  have step: "\<And>i s. 0 \<le> i \<Longrightarrow> i < ?n \<Longrightarrow> ?P i s \<Longrightarrow>
      \<exists>s'. dp_del_group env ev i s = Next s' \<and> ?P (Suc i) s'"
  proof -
    fix i and s :: "modsub_dp_s list del_state"
    assume i: "i < ?n" and ps: "?P i s"
    obtain a l t where s: "s = (a, l, t)" by (cases s)
    have il: "i < length a" and wg: "wf_dp_group (a ! i)" and l: "l = lr" using ps i s by auto
    obtain g' t' where r: "dp_del_group env ev i (a, lr, t) = Next (a[i := g'], lr, t')"
      using dp_del_group_ok [OF env wg il] by blast
    show "\<exists>s'. dp_del_group env ev i s = Next s' \<and> ?P (Suc i) s'"
      using r ps s l by (auto simp: nth_list_update)
  qed
  obtain s' where r: "for_loop (dp_del_group env ev) ?n 0 (arr, lr, tr) = Next s'" and p': "?P ?n s'"
    using for_loop_Next [where P = ?P and body = "dp_del_group env ev"
        and ?i0.0 = 0 and cnt = ?n and ?s0.0 = "(arr, lr, tr)", OF step init] by auto
  show ?thesis using r p' p by (cases s') (auto simp: arr_of_def)
qed

lemma rpc_del_entry_ok:
  assumes env: "env_cooperates env" and g: "wf_rpc (arr ! i)" and i: "i < length arr"
  shows "\<exists>g' tr'. rpc_del_entry env ev i (arr, lr, tr) = Next (arr[i := g'], lr, tr')"
proof -
  obtain p where xp: "r_xpath (arr ! i) = Ptr p" and ns: "sr_get_first_ns True p \<noteq> None"
    using g by (auto simp: wf_rpc_def split: ptr.splits)
  have ok: "strndup_rpc env i" "shmmod_rpc env i = None" "asprintf_rpc env i"
    using env by (simp_all add: env_cooperates_def)
  obtain m where m: "sr_get_first_ns (strndup_rpc env i) p = Some m"
    using ns ok(1) by auto
  obtain path where pth: "sr_path_sub_shm (shm_dir env) (asprintf_rpc env i) m ''rpc''
        (ucast (sr_str_hash (plain_char_signed env) p)) True = Inr path"
    using sr_path_sub_shm_ok [of "shm_dir env" m "''rpc''"] ok(3) by auto
  show ?thesis
    using i xp m ok(2) pth by (simp add: rpc_del_entry_def Let_def) blast
qed

lemma rpc_loop_ok:
  assumes env: "env_cooperates env" and w: "wf_array wf_rpc p cnt"
  shows "\<exists>a t. for_loop (rpc_del_entry env ev) (unat cnt) 0 (arr_of p, lr, tr) = Next (a, lr, t)"
proof (cases "unat cnt = 0")
  case True
  then show ?thesis by (simp add: for_loop_stop)
next
  case False
  then obtain arr where p: "p = Ptr arr" and len: "unat cnt \<le> length arr"
    and all: "list_all wf_rpc (take (unat cnt) arr)"
    using w by (auto simp: wf_array_def unat_eq_0 split: ptr.splits)
  let ?n = "unat cnt"
  let ?P = "\<lambda>i (s :: modsub_rpc_s list del_state).
     case s of (a, l, t) \<Rightarrow>
       ?n \<le> length a \<and> (\<forall>k. i \<le> k \<and> k < ?n \<longrightarrow> wf_rpc (a ! k)) \<and> l = lr"
  have init: "?P 0 (arr, lr, tr)"
    using len all by (auto dest: list_all_take_nth)
  have step: "\<And>i s. 0 \<le> i \<Longrightarrow> i < ?n \<Longrightarrow> ?P i s \<Longrightarrow>
      \<exists>s'. rpc_del_entry env ev i s = Next s' \<and> ?P (Suc i) s'"
  proof -
    fix i and s :: "modsub_rpc_s list del_state"
    assume i: "i < ?n" and ps: "?P i s"
    obtain a l t where s: "s = (a, l, t)" by (cases s)
    have il: "i < length a" and wg: "wf_rpc (a ! i)" and l: "l = lr" using ps i s by auto
    obtain g' t' where r: "rpc_del_entry env ev i (a, lr, t) = Next (a[i := g'], lr, t')"
      using rpc_del_entry_ok [OF env wg il] by blast
    show "\<exists>s'. rpc_del_entry env ev i s = Next s' \<and> ?P (Suc i) s'"
      using r ps s l by (auto simp: nth_list_update)
  qed
  obtain s' where r: "for_loop (rpc_del_entry env ev) ?n 0 (arr, lr, tr) = Next s'" and p': "?P ?n s'"
    using for_loop_Next [where P = ?P and body = "rpc_del_entry env ev"
        and ?i0.0 = 0 and cnt = ?n and ?s0.0 = "(arr, lr, tr)", OF step init] by auto
  show ?thesis using r p' p by (cases s') (auto simp: arr_of_def)
qed

lemma notif_del_group_ok:
  assumes env: "env_cooperates env" and g: "wf_notif_group (arr ! i)" and i: "i < length arr"
  shows "\<exists>g' l' tr'. notif_del_group env ev i (arr, lr, tr) = Next (arr[i := g'], l', tr')"
proof (cases "unat (n_sub_count (arr ! i)) = 0")
  case True
  let ?g = "arr ! i"
  obtain name where nm: "n_module_name ?g = Ptr name" and nd: "n_subs ?g \<noteq> Dangling"
    using g by (auto simp: wf_notif_group_def split: ptr.splits)
  have pa: "asprintf_notif env i" using env by (simp add: env_cooperates_def)
  obtain tr2 where u: "unlink_if_last (shm_dir env) (asprintf_notif env i) (n_module_name ?g)
      ''notif'' lr tr = Next tr2"
    using nm pa unlink_if_last_ok [of "shm_dir env" name "''notif''" lr tr] by auto
  show ?thesis
    using True u nm nd i by (simp add: notif_del_group_def Let_def) blast
next
  case False
  let ?g = "arr ! i"
  obtain name ents where nm: "n_module_name ?g = Ptr name" and es: "n_subs ?g = Ptr ents"
    and len: "unat (n_sub_count ?g) \<le> length ents"
    and xs: "list_all (\<lambda>e. ns_xpath e \<noteq> Dangling) (take (unat (n_sub_count ?g)) ents)"
    using g False by (auto simp: wf_notif_group_def split: ptr.splits)
  let ?n = "unat (n_sub_count ?g)"
  let ?P = "\<lambda>j (s :: modsub_notifsub_s list del_state).
     case s of (es, l, t) \<Rightarrow>
       ?n \<le> length es \<and> (\<forall>k. j \<le> k \<and> k < ?n \<longrightarrow> ns_xpath (es ! k) \<noteq> Dangling)"
  have init: "?P 0 (ents, lr, tr)"
    using len xs by (auto dest: list_all_take_nth)
  have step: "\<And>j s. 0 \<le> j \<Longrightarrow> j < ?n \<Longrightarrow> ?P j s \<Longrightarrow>
      \<exists>s'. notif_unsub_entry env ev i name j s = Next s' \<and> ?P (Suc j) s'"
  proof -
    fix j and s :: "modsub_notifsub_s list del_state"
    assume j: "j < ?n" and p: "?P j s"
    obtain es l t where s: "s = (es, l, t)" by (cases s)
    have a: "j < length es" "ns_xpath (es ! j) \<noteq> Dangling" using p j s by auto
    have ok: "fst (shmmod_notif env i j) = None" using env by (simp add: env_cooperates_def)
    obtain v where sm: "shmmod_notif env i j = (None, v)"
      using ok by (cases "shmmod_notif env i j") auto
    show "\<exists>s'. notif_unsub_entry env ev i name j s = Next s' \<and> ?P (Suc j) s'"
      using a p s sm by (auto simp: notif_unsub_entry_def Let_def nth_list_update)
  qed
  obtain s' where r: "for_loop (notif_unsub_entry env ev i name) ?n 0 (ents, lr, tr) = Next s'"
    using for_loop_Next [where P = ?P and body = "notif_unsub_entry env ev i name"
        and ?i0.0 = 0 and cnt = ?n and ?s0.0 = "(ents, lr, tr)", OF step init] by auto
  obtain es l t where s': "s' = (es, l, t)" by (cases s')
  have pa: "asprintf_notif env i" using env by (simp add: env_cooperates_def)
  obtain tr2 where u: "unlink_if_last (shm_dir env) (asprintf_notif env i) (n_module_name ?g)
      ''notif'' l t = Next tr2"
    using nm pa unlink_if_last_ok [of "shm_dir env" name "''notif''" l t] by auto
  show ?thesis
    using r s' u nm es False i by (simp add: notif_del_group_def Let_def free_ptr_def) blast
qed

lemma notif_loop_ok:
  assumes env: "env_cooperates env" and w: "wf_array wf_notif_group p cnt"
  shows "\<exists>s'. for_loop (notif_del_group env ev) (unat cnt) 0 (arr_of p, lr, tr) = Next s'"
proof (cases "unat cnt = 0")
  case True
  then show ?thesis by (simp add: for_loop_stop)
next
  case False
  then obtain arr where p: "p = Ptr arr" and len: "unat cnt \<le> length arr"
    and all: "list_all wf_notif_group (take (unat cnt) arr)"
    using w by (auto simp: wf_array_def unat_eq_0 split: ptr.splits)
  let ?n = "unat cnt"
  let ?P = "\<lambda>i (s :: modsub_notif_s list del_state).
     case s of (a, l, t) \<Rightarrow>
       ?n \<le> length a \<and> (\<forall>k. i \<le> k \<and> k < ?n \<longrightarrow> wf_notif_group (a ! k))"
  have init: "?P 0 (arr, lr, tr)"
    using len all by (auto dest: list_all_take_nth)
  have step: "\<And>i s. 0 \<le> i \<Longrightarrow> i < ?n \<Longrightarrow> ?P i s \<Longrightarrow>
      \<exists>s'. notif_del_group env ev i s = Next s' \<and> ?P (Suc i) s'"
  proof -
    fix i and s :: "modsub_notif_s list del_state"
    assume i: "i < ?n" and ps: "?P i s"
    obtain a l t where s: "s = (a, l, t)" by (cases s)
    have il: "i < length a" and wg: "wf_notif_group (a ! i)" using ps i s by auto
    obtain g' l' t' where r: "notif_del_group env ev i (a, l, t) = Next (a[i := g'], l', t')"
      using notif_del_group_ok [OF env wg il] by blast
    show "\<exists>s'. notif_del_group env ev i s = Next s' \<and> ?P (Suc i) s'"
      using r ps s by (auto simp: nth_list_update)
  qed
  obtain s' where r: "for_loop (notif_del_group env ev) ?n 0 (arr, lr, tr) = Next s'"
    using for_loop_Next [where P = ?P and body = "notif_del_group env ev"
        and ?i0.0 = 0 and cnt = ?n and ?s0.0 = "(arr, lr, tr)", OF step init] by auto
  show ?thesis unfolding p using r by (cases s') (simp add: arr_of_def)
qed

lemma wf_array_not_dangling: "wf_array ok p cnt \<Longrightarrow> p \<noteq> Dangling"
  by (auto simp: wf_array_def)

text \<open>
  On a well-formed registry, in an environment where nothing fails, the teardown returns
  successfully.
\<close>

lemma sr_subs_del_all_returns:
  assumes "wf_subs subs" and "env_cooperates env"
  shows "\<exists>subs' tr. sr_subs_del_all env subs = Returned (None, subs', tr)"
proof -
  note w = assms(1) [unfolded wf_subs_def]
  obtain s1 where c: "for_loop (conf_del_group env (evpipe_num subs)) (unat (conf_sub_count subs)) 0
        (arr_of (conf_subs subs), last_removed_uninit env, []) = Next s1"
    using conf_loop_ok [OF assms(2) w [THEN conjunct1]] by blast
  obtain a1 l1 t1 where s1: "s1 = (a1, l1, t1)" by (cases s1)
  obtain a2 t2 where d: "for_loop (dp_del_group env (evpipe_num subs)) (unat (dp_sub_count subs)) 0
        (arr_of (dp_subs subs), l1, t1) = Next (a2, l1, t2)"
    using dp_loop_ok [OF assms(2) w [THEN conjunct2, THEN conjunct1]] by blast
  obtain a3 t3 where r: "for_loop (rpc_del_entry env (evpipe_num subs)) (unat (rpc_sub_count subs)) 0
        (arr_of (rpc_subs subs), l1, t2) = Next (a3, l1, t3)"
    using rpc_loop_ok [OF assms(2) w [THEN conjunct2, THEN conjunct2, THEN conjunct1]] by blast
  obtain s4 where n: "for_loop (notif_del_group env (evpipe_num subs)) (unat (notif_sub_count subs)) 0
        (arr_of (notif_subs subs), l1, t3) = Next s4"
    using notif_loop_ok [OF assms(2) w [THEN conjunct2, THEN conjunct2, THEN conjunct2]] by blast
  have nd: "conf_subs subs \<noteq> Dangling" "dp_subs subs \<noteq> Dangling" "rpc_subs subs \<noteq> Dangling"
    "notif_subs subs \<noteq> Dangling"
    using w by (auto dest: wf_array_not_dangling)
  show ?thesis
    using c s1 d r n nd by (cases s4) (simp add: sr_subs_del_all_def Let_def)
qed


lemma sr_subs_del_all_example_wf: "wf_subs subs_m1_rpc2 \<and> env_cooperates env_del_ok"
  by (simp add: wf_subs_def wf_array_def wf_conf_group_def wf_rpc_def env_cooperates_def
      subs_m1_rpc2_def subs_m1_def conf_m1_def rpc_a_def rpc_b_def empty_subs_def env_del_ok_def
      sr_get_first_ns_def isalpha_def isalnum_def)

text \<open>The paths of the example hash to these values, printed so.\<close>

lemma hash_m1_a: "sr_str_hash True ''/m1:a'' = 0xc971128e"
proof -
  have "jenkins_one_at_a_time (path_bytes ''/m1:a'') = 0xc971128e"
    by (simp add: jenkins_one_at_a_time_def path_bytes_def oaat_round_def)
  then show ?thesis by (subst sr_str_hash_jenkins) simp_all
qed

lemma hash_m1_b: "sr_str_hash True ''/m1:b'' = 0xbb67767b"
proof -
  have "jenkins_one_at_a_time (path_bytes ''/m1:b'') = 0xbb67767b"
    by (simp add: jenkins_one_at_a_time_def path_bytes_def oaat_round_def)
  then show ?thesis by (subst sr_str_hash_jenkins) simp_all
qed

lemma printf_hash_m1_a: "printf_08x 0xc971128e = ''c971128e''"
  by (simp add: printf_08x_def hex_digits.simps hex_digit_def)

lemma printf_hash_m1_b: "printf_08x 0xbb67767b = ''bb67767b''"
  by (simp add: printf_08x_def hex_digits.simps hex_digit_def)

lemma sr_subs_del_all_example:
  "sr_subs_del_all env_del_ok subs_m1_rpc2
   = Returned (None, subs_m1_rpc2\<lparr>conf_subs := Dangling, rpc_subs := Dangling\<rparr>,
       [Unsub_conf ''m1'' None SR_DS_RUNNING 0 0 0, Unlink_file ''/dev/shm/sr_m1.running'',
        Unsub_rpc ''m1'' ''/m1:a'' 0, Unlink_file ''/dev/shm/sr_m1.rpc.c971128e'',
        Unsub_rpc ''m1'' ''/m1:b'' 0, Unlink_file ''/dev/shm/sr_m1.rpc.bb67767b''])"
  by (simp add: del_all_defs subs_m1_rpc2_def subs_m1_def conf_m1_def rpc_a_def rpc_b_def
      empty_subs_def hash_m1_a hash_m1_b printf_hash_m1_a printf_hash_m1_b word_sless_alt)

text \<open>
  A group without entries is torn down as well, whatever \<^verbatim>\<open>last_removed\<close> held on entry:
  no directory routine is called for it, and its segment file is unlinked exactly when the
  variable was not zero.
\<close>

lemma sr_subs_del_all_empty_group:
  "sr_subs_del_all (env_del_ok\<lparr>last_removed_uninit := True\<rparr>) subs_m1_empty
     = Returned (None, subs_m1_empty\<lparr>conf_subs := Dangling\<rparr>,
         [Unlink_file ''/dev/shm/sr_m1.running''])"
  by (simp add: del_all_defs subs_m1_empty_def conf_m1_empty_def empty_subs_def zero_confsub_def)

lemma sr_subs_del_all_empty_group_zero:
  "sr_subs_del_all env_del_ok subs_m1_empty
     = Returned (None, subs_m1_empty\<lparr>conf_subs := Dangling\<rparr>, [])"
  by (simp add: del_all_defs subs_m1_empty_def conf_m1_empty_def empty_subs_def zero_confsub_def)

lemma sr_subs_del_all_empty_group_wf: "wf_subs subs_m1_empty"
  by (simp add: wf_subs_def wf_array_def wf_conf_group_def subs_m1_empty_def conf_m1_empty_def
      empty_subs_def zero_confsub_def)

text \<open>
  C4 (as amended). For every handle and every environment: when delete-all returns
  successfully, each of the four group arrays has been freed, so no array pointer of the
  handle refers to live memory any more; but nothing in the handle is reset. An array
  pointer is \<^verbatim>\<open>NULL\<close> only if it was \<^verbatim>\<open>NULL\<close> before the call; otherwise it still
  holds the address of the freed block, which is the case whenever the count of that kind
  is not zero. The four counts, the lock and the pipe number are exactly what they were
  before the call.
\<close>

theorem sr_subs_del_all_frees_arrays:
  assumes "sr_subs_del_all env subs = Returned (None, subs', tr)"
  shows "conf_sub_count subs' = conf_sub_count subs \<and> dp_sub_count subs' = dp_sub_count subs
       \<and> rpc_sub_count subs' = rpc_sub_count subs \<and> notif_sub_count subs' = notif_sub_count subs
       \<and> subs_lock subs' = subs_lock subs \<and> evpipe_num subs' = evpipe_num subs
       \<and> (conf_subs subs' = Null \<or> conf_subs subs' = Dangling)
       \<and> (dp_subs subs' = Null \<or> dp_subs subs' = Dangling)
       \<and> (rpc_subs subs' = Null \<or> rpc_subs subs' = Dangling)
       \<and> (notif_subs subs' = Null \<or> notif_subs subs' = Dangling)
       \<and> (conf_subs subs' = Null \<longleftrightarrow> conf_subs subs = Null)
       \<and> (dp_subs subs' = Null \<longleftrightarrow> dp_subs subs = Null)
       \<and> (rpc_subs subs' = Null \<longleftrightarrow> rpc_subs subs = Null)
       \<and> (notif_subs subs' = Null \<longleftrightarrow> notif_subs subs = Null)
       \<and> (conf_sub_count subs \<noteq> 0 \<longrightarrow> conf_subs subs' = Dangling)
       \<and> (dp_sub_count subs \<noteq> 0 \<longrightarrow> dp_subs subs' = Dangling)
       \<and> (rpc_sub_count subs \<noteq> 0 \<longrightarrow> rpc_subs subs' = Dangling)
       \<and> (notif_sub_count subs \<noteq> 0 \<longrightarrow> notif_subs subs' = Dangling)"
proof -
  note eq = sr_subs_del_all_success [OF assms]
  note live = sr_subs_del_all_live [OF assms]
  have cnt: "conf_sub_count subs' = conf_sub_count subs" "dp_sub_count subs' = dp_sub_count subs"
    "rpc_sub_count subs' = rpc_sub_count subs" "notif_sub_count subs' = notif_sub_count subs"
    "subs_lock subs' = subs_lock subs" "evpipe_num subs' = evpipe_num subs"
    by (simp_all add: eq)
  have ptr: "conf_subs subs' = free_ptr (conf_subs subs)" "dp_subs subs' = free_ptr (dp_subs subs)"
    "rpc_subs subs' = free_ptr (rpc_subs subs)" "notif_subs subs' = free_ptr (notif_subs subs)"
    by (simp_all add: eq)
  have nul: "\<And>p :: modsub_conf_s list ptr. (free_ptr p = Null) = (p = Null)"
    "\<And>p :: modsub_dp_s list ptr. (free_ptr p = Null) = (p = Null)"
    "\<And>p :: modsub_rpc_s list ptr. (free_ptr p = Null) = (p = Null)"
    "\<And>p :: modsub_notif_s list ptr. (free_ptr p = Null) = (p = Null)"
    by (simp_all add: free_ptr_def split: ptr.splits)
  have dang: "conf_sub_count subs \<noteq> 0 \<longrightarrow> conf_subs subs' = Dangling"
    "dp_sub_count subs \<noteq> 0 \<longrightarrow> dp_subs subs' = Dangling"
    "rpc_sub_count subs \<noteq> 0 \<longrightarrow> rpc_subs subs' = Dangling"
    "notif_sub_count subs \<noteq> 0 \<longrightarrow> notif_subs subs' = Dangling"
    using live by (auto simp: ptr free_ptr_def)
  show ?thesis
    using cnt dang free_ptr_cases [of "conf_subs subs"] free_ptr_cases [of "dp_subs subs"]
      free_ptr_cases [of "rpc_subs subs"] free_ptr_cases [of "notif_subs subs"]
    by (simp add: ptr nul)
qed

theorem sr_subs_del_all_frees_arrays_witness:
  "sr_subs_del_all env_del_ok subs_m1_rpc2
     = Returned (None, subs_m1_rpc2\<lparr>conf_subs := Dangling, rpc_subs := Dangling\<rparr>,
         [Unsub_conf ''m1'' None SR_DS_RUNNING 0 0 0, Unlink_file ''/dev/shm/sr_m1.running'',
          Unsub_rpc ''m1'' ''/m1:a'' 0, Unlink_file ''/dev/shm/sr_m1.rpc.c971128e'',
          Unsub_rpc ''m1'' ''/m1:b'' 0, Unlink_file ''/dev/shm/sr_m1.rpc.bb67767b''])
   \<and> conf_sub_count (subs_m1_rpc2\<lparr>conf_subs := Dangling, rpc_subs := Dangling\<rparr>) = 1
   \<and> rpc_sub_count (subs_m1_rpc2\<lparr>conf_subs := Dangling, rpc_subs := Dangling\<rparr>) = 2
   \<and> dp_subs (subs_m1_rpc2\<lparr>conf_subs := Dangling, rpc_subs := Dangling\<rparr>) = Null
   \<and> conf_subs (subs_m1_rpc2\<lparr>conf_subs := Dangling, rpc_subs := Dangling\<rparr>) = Dangling
   \<and> rpc_subs (subs_m1_rpc2\<lparr>conf_subs := Dangling, rpc_subs := Dangling\<rparr>) = Dangling
   \<and> sr_subs_del_all (env_del_ok\<lparr>last_removed_uninit := True\<rparr>) subs_m1_empty
       = Returned (None, subs_m1_empty\<lparr>conf_subs := Dangling\<rparr>,
           [Unlink_file ''/dev/shm/sr_m1.running''])
   \<and> conf_sub_count (subs_m1_empty\<lparr>conf_subs := Dangling\<rparr>) = 1
   \<and> conf_subs (subs_m1_empty\<lparr>conf_subs := Dangling\<rparr>) = Dangling"
proof -
  let ?s' = "subs_m1_rpc2\<lparr>conf_subs := Dangling, rpc_subs := Dangling\<rparr>"
  note t = sr_subs_del_all_frees_arrays [OF sr_subs_del_all_example]
  have c0: "conf_sub_count subs_m1_rpc2 = 1" "rpc_sub_count subs_m1_rpc2 = 2"
    "dp_subs subs_m1_rpc2 = Null"
    by (simp_all add: subs_m1_rpc2_def subs_m1_def empty_subs_def)
  have c1: "conf_sub_count ?s' = 1" "rpc_sub_count ?s' = 2"
    using t c0 by simp_all
  have c2: "dp_subs ?s' = Null"
    using t c0 by blast
  have c3: "conf_subs ?s' = Dangling" "rpc_subs ?s' = Dangling"
    using t c0 by simp_all
  note u = sr_subs_del_all_frees_arrays [OF sr_subs_del_all_empty_group]
  have e0: "conf_sub_count subs_m1_empty = 1"
    by (simp add: subs_m1_empty_def empty_subs_def)
  have e1: "conf_sub_count (subs_m1_empty\<lparr>conf_subs := Dangling\<rparr>) = 1"
    using u e0 by simp
  have e2: "conf_subs (subs_m1_empty\<lparr>conf_subs := Dangling\<rparr>) = Dangling"
    using u e0 by simp
  show ?thesis
    using sr_subs_del_all_example c1 c2 c3 sr_subs_del_all_empty_group e1 e2 by (intro conjI)
qed

text \<open>
  As stated the claim fails: after one successful add and a successful delete-all the
  count of config groups is still 1 and the array pointer is not \<^verbatim>\<open>NULL\<close>.
\<close>

theorem sr_subs_del_all_counts_counterexample:
  "sr_sub_conf_add env_ok ''m1'' None SR_DS_RUNNING 1 2 0 0 empty_subs = Returned (None, subs_m1)
   \<and> sr_subs_del_all env_del_ok subs_m1
       = Returned (None, subs_m1\<lparr>conf_subs := Dangling\<rparr>,
           [Unsub_conf ''m1'' None SR_DS_RUNNING 0 0 0, Unlink_file ''/dev/shm/sr_m1.running''])
   \<and> conf_sub_count (subs_m1\<lparr>conf_subs := Dangling\<rparr>) = 1
   \<and> conf_sub_count (subs_m1\<lparr>conf_subs := Dangling\<rparr>) \<noteq> 0
   \<and> conf_subs (subs_m1\<lparr>conf_subs := Dangling\<rparr>) \<noteq> Null"
proof -
  have a: "sr_sub_conf_add env_ok ''m1'' None SR_DS_RUNNING 1 2 0 0 empty_subs
      = Returned (None, subs_m1)"
    by (simp add: conf_add_defs)
  have b: "sr_subs_del_all env_del_ok subs_m1
       = Returned (None, subs_m1\<lparr>conf_subs := Dangling\<rparr>,
           [Unsub_conf ''m1'' None SR_DS_RUNNING 0 0 0, Unlink_file ''/dev/shm/sr_m1.running''])"
    by (simp add: del_all_defs subs_m1_def conf_m1_def empty_subs_def)
  have c: "conf_sub_count (subs_m1\<lparr>conf_subs := Dangling\<rparr>) = 1"
    by (simp add: subs_m1_def empty_subs_def)
  then have d: "conf_sub_count (subs_m1\<lparr>conf_subs := Dangling\<rparr>) \<noteq> 0"
    by simp
  have e: "conf_subs (subs_m1\<lparr>conf_subs := Dangling\<rparr>) \<noteq> Null"
    by simp
  show ?thesis using a b c d e by (intro conjI)
qed

end
